theory Spec2Isabelle
  imports Complex_Main
begin

section \<open>Intraday candlestick widget: data model\<close>

text \<open>
  The development embeds \<^verbatim>\<open>src/widgets/symbol-intraday-candlestick-widget.tsx\<close>.

  JavaScript numbers are IEEE doubles. The aggregation only compares prices
  (\<^verbatim>\<open>Math.max\<close>, \<^verbatim>\<open>Math.min\<close>) and adds volumes, so the model is parametric in
  a linearly ordered price type \<open>'p\<close> and an additive volume type \<open>'v\<close>; the payload
  arrives as JSON, which cannot carry NaN. Timestamps are whole seconds far below
  \<open>2^53\<close>, where \<^verbatim>\<open>Math.floor(t / b) * b\<close> on doubles agrees with integer floor
  division, so they are modelled as \<open>int\<close>.
\<close>

text \<open>
  \<^verbatim>\<open>interface IntradayItem\<close>. A \<^verbatim>\<open>T | null\<close> field is an option. The field
  \<^verbatim>\<open>date\<close> is declared \<^verbatim>\<open>string\<close>, but the code guards it with \<^verbatim>\<open>!item.date\<close>;
  the option covers a field that is missing in the JSON at run time.
\<close>

record ('p, 'v) IntradayItem =
  date :: "string option"
  lastSaleTime :: "string option"
  securityId :: int
  securityLastPrice :: "'p option"
  securityPercentageChange :: "'p option"
  lastSellVolume :: "'v option"
  securityDailyAggVolume :: "'v option"
  securityDailyAggValue :: "'v option"
  securityDailyNumTrades :: "int option"

datatype IntradayTimeframe = TF_1m | TF_3m | TF_5m | TF_10m | TF_30m | TF_1h

text \<open>\<^verbatim>\<open>const TIMEFRAMES\<close>: the buttons, in display order.\<close>

definition TIMEFRAMES :: "IntradayTimeframe list" where
  "TIMEFRAMES = [TF_1m, TF_3m, TF_5m, TF_10m, TF_30m, TF_1h]"

fun TIMEFRAME_MINUTES :: "IntradayTimeframe \<Rightarrow> int" where
  "TIMEFRAME_MINUTES TF_1m = 1"
| "TIMEFRAME_MINUTES TF_3m = 3"
| "TIMEFRAME_MINUTES TF_5m = 5"
| "TIMEFRAME_MINUTES TF_10m = 10"
| "TIMEFRAME_MINUTES TF_30m = 30"
| "TIMEFRAME_MINUTES TF_1h = 60"

text \<open>\<^verbatim>\<open>const bucketSeconds = minutes * 60\<close> in \<^verbatim>\<open>aggregateCandles\<close>.\<close>

definition bucketSeconds :: "IntradayTimeframe \<Rightarrow> int" where
  "bucketSeconds timeframe = TIMEFRAME_MINUTES timeframe * 60"

text \<open>
  \<^verbatim>\<open>interface LegendValues\<close>, and the chart library's \<^verbatim>\<open>CandlestickData\<close> as the
  widget fills it. They are declared before \<^verbatim>\<open>AggregatedCandle\<close> so that the
  unqualified field names \<open>time, open, high, low, close, volume\<close> below denote the
  candle's fields.
\<close>

record ('p, 'v) LegendValues =
  "open" :: 'p
  high :: 'p
  low :: 'p
  close :: 'p
  change :: "'p option"
  volume :: 'v

record 'p CandlestickData =
  time :: int
  "open" :: 'p
  high :: 'p
  low :: 'p
  close :: 'p

text \<open>
  The element type of the local array \<^verbatim>\<open>valid\<close>:
  \<^verbatim>\<open>{ ts, price, volume }\<close>.
\<close>

record ('p, 'v) tick =
  ts :: int
  price :: 'p
  volume :: 'v

record ('p, 'v) AggregatedCandle =
  time :: int
  "open" :: 'p
  high :: 'p
  low :: 'p
  close :: 'p
  volume :: 'v

section \<open>Parsing the time of a record\<close>

text \<open>
  \<^verbatim>\<open>!s\<close> on a string-or-null value: true for \<^verbatim>\<open>null\<close>, \<^verbatim>\<open>undefined\<close> and
  the empty string.
\<close>

fun falsy_string :: "string option \<Rightarrow> bool" where
  "falsy_string None = True"
| "falsy_string (Some s) = (s = [])"

text \<open>\<^verbatim>\<open>s.split("T")[0]\<close>: the part of \<open>s\<close> before its first \<open>T\<close>, all of \<open>s\<close> when it has none.\<close>

definition split_T_0 :: "string \<Rightarrow> string" where
  "split_T_0 s = takeWhile (\<lambda>c. c \<noteq> CHR ''T'') s"

text \<open>
  \<^verbatim>\<open>parseIntradayTime\<close>. The browser's \<^verbatim>\<open>new Date(string).getTime()\<close> is the
  parameter \<open>getTime\<close>: milliseconds since the epoch, \<open>None\<close> for an invalid date
  (\<^verbatim>\<open>NaN\<close>).
\<close>

definition parseIntradayTime :: "(string \<Rightarrow> int option) \<Rightarrow> ('p, 'v) IntradayItem \<Rightarrow> int option" where
  "parseIntradayTime getTime item =
     (if falsy_string (lastSaleTime item) \<or> falsy_string (date item) then None
      else
        let dateStr = split_T_0 (the (date item));
            dt = getTime (dateStr @ ''T'' @ the (lastSaleTime item))
        in case dt of
             None \<Rightarrow> None
           | Some ms \<Rightarrow> Some (ms div 1000))"

section \<open>Aggregation\<close>

text \<open>The callback of \<^verbatim>\<open>items.map\<close> in \<^verbatim>\<open>aggregateCandles\<close>.\<close>

definition to_tick :: "(string \<Rightarrow> int option) \<Rightarrow> ('p, 'v::zero) IntradayItem \<Rightarrow> ('p, 'v) tick option" where
  "to_tick getTime item =
     (case parseIntradayTime getTime item of
        None \<Rightarrow> None
      | Some t \<Rightarrow>
          (case securityLastPrice item of
             None \<Rightarrow> None
           | Some p \<Rightarrow>
               Some \<lparr>ts = t, price = p,
                     volume = (case lastSellVolume item of None \<Rightarrow> 0 | Some v \<Rightarrow> v)\<rparr>))"

text \<open>\<^verbatim>\<open>items.map(...).filter(x => x !== null)\<close>: the surviving ticks in input order.\<close>

definition surviving :: "(string \<Rightarrow> int option) \<Rightarrow> ('p, 'v::zero) IntradayItem list \<Rightarrow> ('p, 'v) tick list" where
  "surviving getTime items = map the (filter (\<lambda>x. x \<noteq> None) (map (to_tick getTime) items))"

text \<open>
  The local \<^verbatim>\<open>valid\<close>: the survivors after \<^verbatim>\<open>.sort((a, b) => a.ts - b.ts)\<close>.
  \<^verbatim>\<open>Array.prototype.sort\<close> is stable (ECMAScript 2019) and the comparator is a
  consistent order on integers, so the result is the stable ascending arrangement by
  \<open>ts\<close>; \<open>sort_key\<close> is a stable insertion sort.
\<close>

definition valid :: "(string \<Rightarrow> int option) \<Rightarrow> ('p, 'v::zero) IntradayItem list \<Rightarrow> ('p, 'v) tick list" where
  "valid getTime items = sort_key ts (surviving getTime items)"

text \<open>\<^verbatim>\<open>Math.floor(t / bucketSeconds) * bucketSeconds\<close>.\<close>

definition bucket_of :: "int \<Rightarrow> int \<Rightarrow> int" where
  "bucket_of bs t = (t div bs) * bs"

text \<open>
  The assignments that start a bucket from a tick (before the loop for \<^verbatim>\<open>valid[0]\<close>,
  and in the branch \<^verbatim>\<open>bucket !== currentBucket\<close>). The six loop variables
  \<^verbatim>\<open>currentBucket, open, high, low, close, volume\<close> are held as one record, with
  \<^verbatim>\<open>currentBucket\<close> in the field \<open>time\<close>.
\<close>

definition start_bucket :: "int \<Rightarrow> ('p, 'v) tick \<Rightarrow> ('p, 'v) AggregatedCandle" where
  "start_bucket bucket tick =
     \<lparr>time = bucket, open = price tick, high = price tick, low = price tick,
      close = price tick, volume = tick.volume tick\<rparr>"

text \<open>The \<^verbatim>\<open>else\<close> branch of the loop body.\<close>

definition absorb :: "('p::linorder, 'v::plus) AggregatedCandle \<Rightarrow> ('p, 'v) tick \<Rightarrow> ('p, 'v) AggregatedCandle" where
  "absorb cur tick =
     cur\<lparr>high := max (high cur) (price tick),
         low := min (low cur) (price tick),
         close := price tick,
         AggregatedCandle.volume := AggregatedCandle.volume cur + tick.volume tick\<rparr>"

text \<open>
  The \<^verbatim>\<open>for\<close> loop over \<^verbatim>\<open>valid[1..]\<close> with the final push: \<open>candles\<close> is
  the array built so far, \<open>cur\<close> the loop variables.
\<close>

fun aggregate_loop ::
  "int \<Rightarrow> ('p::linorder, 'v::plus) tick list \<Rightarrow> ('p, 'v) AggregatedCandle list \<Rightarrow>
   ('p, 'v) AggregatedCandle \<Rightarrow> ('p, 'v) AggregatedCandle list" where
  "aggregate_loop bs [] candles cur = candles @ [cur]"
| "aggregate_loop bs (tick # rest) candles cur =
     (let bucket = bucket_of bs (ts tick) in
      if bucket \<noteq> time cur
      then aggregate_loop bs rest (candles @ [cur]) (start_bucket bucket tick)
      else aggregate_loop bs rest candles (absorb cur tick))"

text \<open>The part of \<^verbatim>\<open>aggregateCandles\<close> after \<^verbatim>\<open>valid\<close> is computed.\<close>

definition aggregate_valid ::
  "int \<Rightarrow> ('p::linorder, 'v::plus) tick list \<Rightarrow> ('p, 'v) AggregatedCandle list" where
  "aggregate_valid bs vs =
     (case vs of
        [] \<Rightarrow> []
      | v0 # rest \<Rightarrow> aggregate_loop bs rest [] (start_bucket (bucket_of bs (ts v0)) v0))"

definition aggregateCandles ::
  "(string \<Rightarrow> int option) \<Rightarrow> ('p::linorder, 'v::{plus,zero}) IntradayItem list \<Rightarrow>
   IntradayTimeframe \<Rightarrow> ('p, 'v) AggregatedCandle list" where
  "aggregateCandles getTime items timeframe =
     aggregate_valid (bucketSeconds timeframe) (valid getTime items)"

section \<open>The streaming accumulator of the specification\<close>

text \<open>
  The specification's words, section 4.2, as a second definition to compare with
  \<open>aggregate_valid\<close>: an optional current accumulator and the candles emitted so far.
  The first tick opens an accumulator seeded from it; a later tick whose bucket start
  equals the accumulator's start updates it; a tick with another bucket start emits the
  accumulator and opens a fresh one; after the walk the open accumulator is emitted.
\<close>

definition spec_bucketStart :: "int \<Rightarrow> ('p, 'v) tick \<Rightarrow> int" where
  "spec_bucketStart bucketLength t = (ts t div bucketLength) * bucketLength"

definition spec_seed :: "int \<Rightarrow> ('p, 'v) tick \<Rightarrow> ('p, 'v) AggregatedCandle" where
  "spec_seed bucketLength t =
     \<lparr>time = spec_bucketStart bucketLength t, open = price t, high = price t,
      low = price t, close = price t, volume = tick.volume t\<rparr>"

fun spec_feed ::
  "int \<Rightarrow> ('p::linorder, 'v::plus) AggregatedCandle option \<times> ('p, 'v) AggregatedCandle list \<Rightarrow>
   ('p, 'v) tick \<Rightarrow> ('p, 'v) AggregatedCandle option \<times> ('p, 'v) AggregatedCandle list" where
  "spec_feed bucketLength (None, emitted) t = (Some (spec_seed bucketLength t), emitted)"
| "spec_feed bucketLength (Some acc, emitted) t =
     (if spec_bucketStart bucketLength t = time acc
      then (Some \<lparr>time = time acc, open = open acc, high = max (high acc) (price t),
                  low = min (low acc) (price t), close = price t,
                  volume = volume acc + tick.volume t\<rparr>, emitted)
      else (Some (spec_seed bucketLength t), emitted @ [acc]))"

fun spec_finish ::
  "('p, 'v) AggregatedCandle option \<times> ('p, 'v) AggregatedCandle list \<Rightarrow> ('p, 'v) AggregatedCandle list" where
  "spec_finish (None, emitted) = emitted"
| "spec_finish (Some acc, emitted) = emitted @ [acc]"

definition spec_candles ::
  "int \<Rightarrow> ('p::linorder, 'v::plus) tick list \<Rightarrow> ('p, 'v) AggregatedCandle list" where
  "spec_candles bucketLength ticks = spec_finish (foldl (spec_feed bucketLength) (None, []) ticks)"

section \<open>The widget's state and its event handlers\<close>

text \<open>\<^verbatim>\<open>interface IntradayCandlestickWidgetData\<close>.\<close>

record ('p, 'v) IntradayCandlestickWidgetData =
  symbol :: string
  securityId :: int
  count :: int
  items :: "('p, 'v) IntradayItem list"

text \<open>
  The argument of \<^verbatim>\<open>handleRefresh(securityIdOrSymbol?: string | number)\<close>, and the
  \<^verbatim>\<open>arguments\<close> object of a call of \<^verbatim>\<open>get-symbol-intraday-candlestick-data\<close>:
  \<open>None\<close> is \<^verbatim>\<open>{}\<close>, \<open>Some x\<close> is \<^verbatim>\<open>{ securityIdOrSymbol: x }\<close>.
\<close>

datatype id_or_symbol = Symbol string | SecurityId int

datatype caller = AutoFetch | HandleRefresh

record request =
  caller :: caller
  arguments :: "id_or_symbol option"

text \<open>How a promise of \<^verbatim>\<open>app.callServerTool\<close> settles: with a result, or rejected.\<close>

datatype 'r outcome = Resolved 'r | Rejected

text \<open>
  What the widget takes from outside. \<^verbatim>\<open>extractIntradayData\<close> rests on
  \<^verbatim>\<open>JSON.parse\<close> and unchecked casts of the host's result; the lifecycle only asks
  whether it returns \<^verbatim>\<open>null\<close> (\<open>None\<close>) or a payload, so it enters as a function on
  an abstract result type \<open>'r\<close>. \<open>hasCallServerTool\<close> is the test
  \<^verbatim>\<open>typeof app.callServerTool === "function"\<close>.
\<close>

record ('r, 'p, 'v) host =
  getTime :: "string \<Rightarrow> int option"
  extractIntradayData :: "'r \<Rightarrow> ('p, 'v) IntradayCandlestickWidgetData option"
  hasCallServerTool :: bool

text \<open>
  The React state of \<^verbatim>\<open>IntradayCandlestickApp\<close> (\<open>data\<close>, \<open>needsAutoFetch\<close>) and of
  \<^verbatim>\<open>IntradayAppInner\<close> once the app is connected, with the promises of
  \<^verbatim>\<open>callServerTool\<close> that have not settled yet, oldest first. The state that only
  drives the layout (\<^verbatim>\<open>toolInput, hostContext, showVolume, showCandles, chartSize\<close>)
  is left out.
\<close>

record ('p, 'v) widget =
  data :: "('p, 'v) IntradayCandlestickWidgetData option"
  needsAutoFetch :: bool
  symbolInput :: string
  selectedTimeframe :: IntradayTimeframe
  isRefreshing :: bool
  refreshError :: "string option"
  legendValues :: "('p, 'v) LegendValues option"
  inflight :: "request list"

text \<open>The \<^verbatim>\<open>useState\<close> initial values.\<close>

definition initial :: "('p, 'v) widget" where
  "initial =
     \<lparr>data = None, needsAutoFetch = False, symbolInput = [], selectedTimeframe = TF_5m,
      isRefreshing = False, refreshError = None, legendValues = None, inflight = []\<rparr>"

subsection \<open>Derived values (the \<^verbatim>\<open>useMemo\<close> blocks)\<close>

text \<open>
  The candles behind \<^verbatim>\<open>candleData\<close> and \<^verbatim>\<open>volumeData\<close>: empty without data or
  with no items, \<^verbatim>\<open>aggregateCandles(data.items, selectedTimeframe)\<close> otherwise.
\<close>

definition candles ::
  "('r, 'p::linorder, 'v::{plus,zero}) host \<Rightarrow> ('p, 'v) widget \<Rightarrow> ('p, 'v) AggregatedCandle list" where
  "candles h s =
     (case data s of
        None \<Rightarrow> []
      | Some d \<Rightarrow>
          if items d = [] then []
          else aggregateCandles (getTime h) (items d) (selectedTimeframe s))"

definition candleData ::
  "('r, 'p::linorder, 'v::{plus,zero}) host \<Rightarrow> ('p, 'v) widget \<Rightarrow> 'p CandlestickData list" where
  "candleData h s =
     map (\<lambda>c. \<lparr>CandlestickData.time = time c, open = open c, high = high c,
                low = low c, close = close c\<rparr>) (candles h s)"

text \<open>The summary stored for one candle in the loop that fills \<^verbatim>\<open>legendMap\<close>.\<close>

definition legend_of :: "('p::{linorder,field}, 'v) AggregatedCandle \<Rightarrow> ('p, 'v) LegendValues" where
  "legend_of c =
     \<lparr>LegendValues.open = open c, high = high c, low = low c, close = close c,
      change = (if open c \<noteq> 0 then Some (((close c - open c) / open c) * 100) else None),
      volume = volume c\<rparr>"

text \<open>\<^verbatim>\<open>legendMap\<close>: a \<^verbatim>\<open>Map\<close> filled by \<^verbatim>\<open>map.set(c.time, ...)\<close> in candle order.\<close>

definition legendMap ::
  "('r, 'p::{linorder,field}, 'v::{plus,zero}) host \<Rightarrow> ('p, 'v) widget \<Rightarrow> (int \<rightharpoonup> ('p, 'v) LegendValues)" where
  "legendMap h s =
     (case data s of
        None \<Rightarrow> Map.empty
      | Some d \<Rightarrow>
          foldl (\<lambda>m c. m(time c \<mapsto> legend_of c)) Map.empty
            (aggregateCandles (getTime h) (items d) (selectedTimeframe s)))"

subsection \<open>Effects\<close>

text \<open>The effect "Auto-fetch fallback" (the app is connected).\<close>

definition autoFetch_effect :: "('r, 'p, 'v) host \<Rightarrow> ('p, 'v) widget \<Rightarrow> ('p, 'v) widget" where
  "autoFetch_effect h s =
     (if \<not> needsAutoFetch s then s
      else
        let s1 = s\<lparr>needsAutoFetch := False\<rparr>
        in if \<not> hasCallServerTool h then s1
           else s1\<lparr>inflight := inflight s1 @ [\<lparr>caller = AutoFetch, arguments = None\<rparr>]\<rparr>)"

text \<open>
  The last lines of \<^verbatim>\<open>handleCrosshairMove\<close> and the body of the effect "Set default
  legend to last bar": the summary stored under the time of the last candle, if any.
\<close>

definition select_last ::
  "('r, 'p::{linorder,field}, 'v::{plus,zero}) host \<Rightarrow> ('p, 'v) widget \<Rightarrow> ('p, 'v) widget" where
  "select_last h s =
     (if candleData h s \<noteq> [] then
        (case legendMap h s (CandlestickData.time (last (candleData h s))) of
           None \<Rightarrow> s
         | Some values \<Rightarrow> s\<lparr>legendValues := Some values\<rparr>)
      else s)"

definition defaultLegend_effect ::
  "('r, 'p::{linorder,field}, 'v::{plus,zero}) host \<Rightarrow> ('p, 'v) widget \<Rightarrow> ('p, 'v) widget" where
  "defaultLegend_effect h s =
     (if candleData h s \<noteq> [] \<and> legendValues s = None then select_last h s else s)"

text \<open>The effect "Sync symbol input with data".\<close>

definition syncSymbol_effect :: "('p, 'v) widget \<Rightarrow> ('p, 'v) widget" where
  "syncSymbol_effect s =
     (case data s of
        None \<Rightarrow> s
      | Some d \<Rightarrow> if symbol d \<noteq> [] \<and> symbolInput s = [] then s\<lparr>symbolInput := symbol d\<rparr> else s)"

text \<open>
  The effects that run after a render, in source order. Each one disables itself by the
  state it sets and none touches what another one reads, so one pass reaches the state
  in which no effect fires any more (lemma \<open>effects_idem\<close>). React runs an effect
  only when a value in its dependency array has changed; the model runs every body, which
  is the same from a state in which no body acts: a body can act after a handler only if
  the handler changed what its condition reads, and that is in its dependency array.
\<close>

definition effects ::
  "('r, 'p::{linorder,field}, 'v::{plus,zero}) host \<Rightarrow> ('p, 'v) widget \<Rightarrow> ('p, 'v) widget" where
  "effects h s = syncSymbol_effect (defaultLegend_effect h (autoFetch_effect h s))"

subsection \<open>Handlers\<close>

text \<open>\<^verbatim>\<open>if (securityIdOrSymbol)\<close>: a non-empty string or a non-zero number.\<close>

fun truthy :: "id_or_symbol \<Rightarrow> bool" where
  "truthy (Symbol s) = (s \<noteq> [])"
| "truthy (SecurityId n) = (n \<noteq> 0)"

text \<open>
  \<^verbatim>\<open>handleRefresh\<close> up to its \<^verbatim>\<open>await\<close>: the two state updates and the call, whose
  promise joins \<open>inflight\<close>. \<open>None\<close> is a call without argument.
\<close>

definition handleRefresh :: "('p, 'v) widget \<Rightarrow> id_or_symbol option \<Rightarrow> ('p, 'v) widget" where
  "handleRefresh s securityIdOrSymbol =
     s\<lparr>isRefreshing := True, refreshError := None,
       inflight := inflight s @
         [\<lparr>caller = HandleRefresh,
           arguments = (case securityIdOrSymbol of
                          None \<Rightarrow> None
                        | Some x \<Rightarrow> if truthy x then Some x else None)\<rparr>]\<rparr>"

text \<open>
  \<^verbatim>\<open>handleRefresh\<close> after its \<^verbatim>\<open>await\<close>: the \<^verbatim>\<open>try\<close> body, the \<^verbatim>\<open>catch\<close> and
  the \<^verbatim>\<open>finally\<close>.
\<close>

definition handleRefresh_settled ::
  "('r, 'p, 'v) host \<Rightarrow> ('p, 'v) widget \<Rightarrow> 'r outcome \<Rightarrow> ('p, 'v) widget" where
  "handleRefresh_settled h s out =
     (let s1 =
        (case out of
           Resolved result \<Rightarrow>
             (case extractIntradayData h result of
                Some fetched \<Rightarrow> s\<lparr>data := Some fetched, legendValues := None\<rparr>
              | None \<Rightarrow> s\<lparr>refreshError := Some ''No data found''\<rparr>)
         | Rejected \<Rightarrow> s\<lparr>refreshError := Some ''Failed to fetch data''\<rparr>)
      in s1\<lparr>isRefreshing := False\<rparr>)"

text \<open>The \<^verbatim>\<open>.then\<close> and \<^verbatim>\<open>.catch\<close> of the auto-fetch call.\<close>

definition autoFetch_settled ::
  "('r, 'p, 'v) host \<Rightarrow> ('p, 'v) widget \<Rightarrow> 'r outcome \<Rightarrow> ('p, 'v) widget" where
  "autoFetch_settled h s out =
     (case out of
        Resolved result \<Rightarrow>
          (case extractIntradayData h result of
             Some fetched \<Rightarrow> s\<lparr>data := Some fetched\<rparr>
           | None \<Rightarrow> s)
      | Rejected \<Rightarrow> s)"

text \<open>\<^verbatim>\<open>app.ontoolresult\<close>.\<close>

definition ontoolresult :: "('r, 'p, 'v) host \<Rightarrow> ('p, 'v) widget \<Rightarrow> 'r \<Rightarrow> ('p, 'v) widget" where
  "ontoolresult h s result =
     (case extractIntradayData h result of
        Some extracted \<Rightarrow> s\<lparr>data := Some extracted\<rparr>
      | None \<Rightarrow> s\<lparr>needsAutoFetch := True\<rparr>)"

text \<open>
  \<^verbatim>\<open>String.prototype.trim\<close>. A \<open>char\<close> stands for a code unit below 256. Of the
  characters that \<^verbatim>\<open>trim\<close> strips (ECMAScript WhiteSpace and LineTerminator), these
  are the ones below 256: tab, line feed, vertical tab, form feed, carriage return,
  space and the no-break space U+00A0. The others (U+1680, U+2000 to U+200A, U+2028,
  U+2029, U+202F, U+205F, U+3000, U+FEFF) are not values of \<open>char\<close>.
\<close>

definition white_space :: "char \<Rightarrow> bool" where
  "white_space c =
     (c \<in> set [CHR 0x09, CHR 0x0A, CHR 0x0B, CHR 0x0C, CHR 0x0D, CHR 0x20, CHR 0xA0])"

definition trim :: "string \<Rightarrow> string" where
  "trim s = rev (dropWhile white_space (rev (dropWhile white_space s)))"

definition handleRefreshClick :: "('p, 'v) widget \<Rightarrow> ('p, 'v) widget" where
  "handleRefreshClick s =
     (if trim (symbolInput s) \<noteq> [] then handleRefresh s (Some (Symbol (trim (symbolInput s))))
      else s)"

text \<open>\<^verbatim>\<open>handleCrosshairMove\<close>; \<open>None\<close> and \<open>Some 0\<close> are the falsy \<^verbatim>\<open>params.time\<close>.\<close>

definition handleCrosshairMove ::
  "('r, 'p::{linorder,field}, 'v::{plus,zero}) host \<Rightarrow> ('p, 'v) widget \<Rightarrow> int option \<Rightarrow> ('p, 'v) widget" where
  "handleCrosshairMove h s t =
     (case (if t = None \<or> t = Some 0 then None else legendMap h s (the t)) of
        Some values \<Rightarrow> s\<lparr>legendValues := Some values\<rparr>
      | None \<Rightarrow> select_last h s)"

subsection \<open>Events\<close>

text \<open>
  Everything that can happen to the connected widget. A button with
  \<^verbatim>\<open>disabled={isRefreshing}\<close> delivers no click while \<open>isRefreshing\<close> holds; the
  \<^verbatim>\<open>onKeyDown\<close> of the symbol input and the interval callback have no such test.
  \<open>Settled i out\<close> settles the promise at position \<open>i\<close> of \<open>inflight\<close>.
  The effect "Auto-refresh every 30 minutes" holds an interval exactly while
  \<^verbatim>\<open>data?.symbol\<close> is truthy, and sets it again when the symbol or the security id of
  the data changes; its callback is \<^verbatim>\<open>handleRefresh(data.securityId)\<close>, so
  \<open>IntervalTick\<close> does nothing without such data.
\<close>

datatype 'r event =
    ToolResult 'r
  | Settled nat "'r outcome"
  | ChangeSymbolInput string
  | ClickRefresh
  | KeyDownEnter
  | IntervalTick
  | ClickTimeframe IntradayTimeframe
  | CrosshairMove "int option"

fun handle ::
  "('r, 'p::{linorder,field}, 'v::{plus,zero}) host \<Rightarrow> ('p, 'v) widget \<Rightarrow> 'r event \<Rightarrow> ('p, 'v) widget" where
  "handle h s (ToolResult result) = ontoolresult h s result"
| "handle h s (Settled i out) =
     (if i < length (inflight s) then
        let s1 = s\<lparr>inflight := take i (inflight s) @ drop (Suc i) (inflight s)\<rparr>
        in (case caller (inflight s ! i) of
              AutoFetch \<Rightarrow> autoFetch_settled h s1 out
            | HandleRefresh \<Rightarrow> handleRefresh_settled h s1 out)
      else s)"
| "handle h s (ChangeSymbolInput v) = s\<lparr>symbolInput := v\<rparr>"
| "handle h s ClickRefresh = (if isRefreshing s then s else handleRefreshClick s)"
| "handle h s KeyDownEnter = handleRefreshClick s"
| "handle h s IntervalTick =
     (case data s of
        None \<Rightarrow> s
      | Some d \<Rightarrow>
          if symbol d \<noteq> []
          then handleRefresh s (Some (SecurityId (IntradayCandlestickWidgetData.securityId d)))
          else s)"
| "handle h s (ClickTimeframe tf) =
     (if isRefreshing s then s else s\<lparr>selectedTimeframe := tf, legendValues := None\<rparr>)"
| "handle h s (CrosshairMove t) = handleCrosshairMove h s t"

text \<open>One event: the handler, then the render with its effects.\<close>

definition step ::
  "('r, 'p::{linorder,field}, 'v::{plus,zero}) host \<Rightarrow> ('p, 'v) widget \<Rightarrow> 'r event \<Rightarrow> ('p, 'v) widget" where
  "step h s e = effects h (handle h s e)"

definition run ::
  "('r, 'p::{linorder,field}, 'v::{plus,zero}) host \<Rightarrow> ('p, 'v) widget \<Rightarrow> 'r event list \<Rightarrow> ('p, 'v) widget" where
  "run h s es = foldl (step h) s es"

subsection \<open>What is rendered\<close>

text \<open>
  The conditional at the end of \<^verbatim>\<open>IntradayAppInner\<close>: "Waiting for data...", "No
  intraday data available", the chart, or nothing. The line with \<open>refreshError\<close> is
  rendered above it whenever \<open>refreshError\<close> is set.
\<close>

datatype panel = Waiting | NoIntradayData | Chart | Nothing

definition panel ::
  "('r, 'p::linorder, 'v::{plus,zero}) host \<Rightarrow> ('p, 'v) widget \<Rightarrow> panel" where
  "panel h s =
     (if data s = None \<and> refreshError s = None then Waiting
      else if data s \<noteq> None \<and> candleData h s = [] then NoIntradayData
      else if data s \<noteq> None then Chart
      else Nothing)"

subsection \<open>States between events\<close>

text \<open>
  The default selection of the legend: the summary of the last candle, if there is one.
\<close>

definition default_legend ::
  "('r, 'p::{linorder,field}, 'v::{plus,zero}) host \<Rightarrow> ('p, 'v) widget \<Rightarrow> ('p, 'v) LegendValues option" where
  "default_legend h s = (if candles h s = [] then None else Some (legend_of (last (candles h s))))"

text \<open>
  A state in which no effect fires: what the widget is in between two events. The
  initial state is one, and every \<open>step\<close> ends in one (lemmas \<open>quiescent_initial\<close>,
  \<open>quiescent_step\<close>, \<open>quiescent_run\<close>).
\<close>

definition quiescent :: "('r, 'p::{linorder,field}, 'v::{plus,zero}) host \<Rightarrow> ('p, 'v) widget \<Rightarrow> bool" where
  "quiescent h s \<longleftrightarrow> effects h s = s"

section \<open>A concrete session\<close>

text \<open>
  Scenario 1 of the specification on 2026-03-01, with a \<open>getTime\<close> that reads the three
  time strings as UTC. The second record carries its date in ISO form, as the comment in
  \<^verbatim>\<open>parseIntradayTime\<close> allows.
\<close>

definition scenario_getTime :: "string \<Rightarrow> int option" where
  "scenario_getTime s =
     (if s = ''2026-03-01T09:30:00'' then Some 1772357400000
      else if s = ''2026-03-01T09:31:30'' then Some 1772357490000
      else if s = ''2026-03-01T09:35:00'' then Some 1772357700000
      else None)"

definition raw :: "string \<Rightarrow> string \<Rightarrow> 'p \<Rightarrow> 'v \<Rightarrow> ('p, 'v) IntradayItem" where
  "raw d t p v =
     \<lparr>date = Some d, lastSaleTime = Some t, securityId = 629014, securityLastPrice = Some p,
      securityPercentageChange = None, lastSellVolume = Some v, securityDailyAggVolume = None,
      securityDailyAggValue = None, securityDailyNumTrades = None\<rparr>"

definition scenario_items :: "(rat, rat) IntradayItem list" where
  "scenario_items =
     [raw ''2026-03-01'' ''09:30:00'' 100 10,
      raw ''2026-03-01T00:00:00.000Z'' ''09:31:30'' 101 5,
      raw ''2026-03-01'' ''09:35:00'' 99 7]"

definition scenario_null_volume :: "(rat, rat) IntradayItem" where
  "scenario_null_volume = (raw ''2026-03-01'' ''09:31:30'' 101 5)\<lparr>lastSellVolume := None\<rparr>"

definition scenario_no_time :: "(rat, rat) IntradayItem" where
  "scenario_no_time = (raw ''2026-03-01'' ''09:31:30'' 101 5)\<lparr>lastSaleTime := None\<rparr>"

definition scenario_data :: "(rat, rat) IntradayCandlestickWidgetData" where
  "scenario_data = \<lparr>symbol = ''TEVA'', securityId = 629014, count = 3, items = scenario_items\<rparr>"

text \<open>A host whose results are \<open>True\<close> (the payload above) or \<open>False\<close> (nothing to extract).\<close>

definition scenario_host :: "(bool, rat, rat) host" where
  "scenario_host =
     \<lparr>getTime = scenario_getTime,
      extractIntradayData = (\<lambda>ok. if ok then Some scenario_data else None),
      hasCallServerTool = True\<rparr>"

text \<open>
  The widget after the host delivered the payload (lemma \<open>run_loaded\<close>), and after a
  click on Refresh in that state (lemma \<open>step_click\<close>).
\<close>

definition scenario_loaded :: "(rat, rat) widget" where
  "scenario_loaded =
     \<lparr>data = Some scenario_data, needsAutoFetch = False, symbolInput = ''TEVA'',
      selectedTimeframe = TF_5m, isRefreshing = False, refreshError = None,
      legendValues = Some \<lparr>LegendValues.open = 99, high = 99, low = 99, close = 99,
                            change = Some 0, volume = 7\<rparr>,
      inflight = []\<rparr>"

definition scenario_refreshing :: "(rat, rat) widget" where
  "scenario_refreshing =
     scenario_loaded\<lparr>isRefreshing := True,
       inflight := [\<lparr>caller = HandleRefresh, arguments = Some (Symbol ''TEVA'')\<rparr>]\<rparr>"

section \<open>Properties of the aggregation\<close>

lemma ohlc_start: "low (start_bucket b (t::('p::linorder,'v) tick)) \<le> min (open (start_bucket b t)) (close (start_bucket b t)) \<and>
  max (open (start_bucket b t)) (close (start_bucket b t)) \<le> high (start_bucket b t)"
  by (simp add: start_bucket_def)

lemma ohlc_absorb:
  fixes cur :: "('p::linorder, 'v::plus) AggregatedCandle"
  assumes "low cur \<le> min (open cur) (close cur) \<and> max (open cur) (close cur) \<le> high cur"
  shows "low (absorb cur t) \<le> min (open (absorb cur t)) (close (absorb cur t)) \<and>
         max (open (absorb cur t)) (close (absorb cur t)) \<le> high (absorb cur t)"
  using assms by (auto simp: absorb_def min_le_iff_disj le_max_iff_disj)

lemma loop_all:
  assumes "\<And>b t. P (start_bucket b t)" and "\<And>c t. P c \<Longrightarrow> P (absorb c t)"
  shows "\<forall>c\<in>set cs. P c \<Longrightarrow> P cur \<Longrightarrow> \<forall>c\<in>set (aggregate_loop bs rest cs cur). P c"
proof (induction rest arbitrary: cs cur)
  case Nil
  then show ?case by simp
next
  case (Cons t rest)
  show ?case
  proof (cases "bucket_of bs (ts t) \<noteq> time cur")
    case True
    have "\<forall>c\<in>set (aggregate_loop bs rest (cs @ [cur]) (start_bucket (bucket_of bs (ts t)) t)). P c"
      using Cons.prems assms(1) by (intro Cons.IH) auto
    with True show ?thesis by simp
  next
    case False
    have "\<forall>c\<in>set (aggregate_loop bs rest cs (absorb cur t)). P c"
      using Cons.prems assms(2) by (intro Cons.IH) auto
    with False show ?thesis by simp
  qed
qed

lemma loop_times:
  "time ` set (aggregate_loop bs rest cs cur) \<subseteq>
     time ` set cs \<union> {time cur} \<union> (\<lambda>t. bucket_of bs (ts t)) ` set rest"
proof (induction rest arbitrary: cs cur)
  case Nil
  then show ?case by auto
next
  case (Cons t rest)
  have a: "time (absorb cur t) = time cur" by (simp add: absorb_def)
  have b: "time (start_bucket (bucket_of bs (ts t)) t) = bucket_of bs (ts t)" by (simp add: start_bucket_def)
  show ?case
  proof (cases "bucket_of bs (ts t) \<noteq> time cur")
    case True
    then show ?thesis using Cons.IH[of "cs @ [cur]" "start_bucket (bucket_of bs (ts t)) t"] b
      by auto
  next
    case False
    then show ?thesis using Cons.IH[of cs "absorb cur t"] a by auto
  qed
qed

lemma bucket_of_mono: "0 < bs \<Longrightarrow> a \<le> b \<Longrightarrow> bucket_of bs a \<le> bucket_of bs b"
  by (simp add: bucket_of_def zdiv_mono1)

lemma loop_increasing:
  assumes "0 < bs"
  shows "sorted (map ts rest) \<Longrightarrow> \<forall>t\<in>set rest. time cur \<le> bucket_of bs (ts t) \<Longrightarrow>
    sorted_wrt (<) (map time cs) \<Longrightarrow> \<forall>c\<in>set cs. time c < time cur \<Longrightarrow>
    sorted_wrt (<) (map time (aggregate_loop bs rest cs cur))"
proof (induction rest arbitrary: cs cur)
  case Nil
  then show ?case by (auto simp: sorted_wrt_append)
next
  case (Cons t rest)
  let ?b = "bucket_of bs (ts t)"
  have le: "time cur \<le> ?b" using Cons.prems(2) by simp
  have rest_ge: "\<forall>u\<in>set rest. ?b \<le> bucket_of bs (ts u)"
    using Cons.prems(1) assms by (auto intro: bucket_of_mono)
  have srt: "sorted (map ts rest)" using Cons.prems(1) by simp
  show ?case
  proof (cases "?b \<noteq> time cur")
    case True
    with le have lt: "time cur < ?b" by simp
    have "sorted_wrt (<) (map time (aggregate_loop bs rest (cs @ [cur]) (start_bucket ?b t)))"
    proof (rule Cons.IH[OF srt])
      show "\<forall>u\<in>set rest. time (start_bucket ?b t) \<le> bucket_of bs (ts u)"
        using rest_ge by (simp add: start_bucket_def)
      show "sorted_wrt (<) (map time (cs @ [cur]))"
        using Cons.prems(3,4) by (auto simp: sorted_wrt_append)
      show "\<forall>c\<in>set (cs @ [cur]). time c < time (start_bucket ?b t)"
        using Cons.prems(4) lt by (auto simp: start_bucket_def)
    qed
    with True show ?thesis by simp
  next
    case False
    have "sorted_wrt (<) (map time (aggregate_loop bs rest cs (absorb cur t)))"
    proof (rule Cons.IH[OF srt])
      show "\<forall>u\<in>set rest. time (absorb cur t) \<le> bucket_of bs (ts u)"
        using rest_ge False by (simp add: absorb_def)
      show "sorted_wrt (<) (map time cs)" by (rule Cons.prems(3))
      show "\<forall>c\<in>set cs. time c < time (absorb cur t)"
        using Cons.prems(4) by (simp add: absorb_def)
    qed
    with False show ?thesis by simp
  qed
qed

lemma bucketSeconds_pos: "0 < bucketSeconds tf"
  by (cases tf) (simp_all add: bucketSeconds_def)

lemma sorted_valid: "sorted (map ts (valid gt its))"
  by (simp add: valid_def)

lemma valid_increasing:
  assumes "0 < bs" "sorted (map ts vs)"
  shows "sorted_wrt (<) (map time (aggregate_valid bs vs))"
proof (cases vs)
  case Nil
  then show ?thesis by (simp add: aggregate_valid_def)
next
  case (Cons v0 rest)
  have "sorted_wrt (<) (map time (aggregate_loop bs rest [] (start_bucket (bucket_of bs (ts v0)) v0)))"
    using assms Cons by (intro loop_increasing) (auto simp: start_bucket_def intro: bucket_of_mono)
  with Cons show ?thesis by (simp add: aggregate_valid_def)
qed

lemma loop_spec:
  "aggregate_loop bs rest cs cur = spec_finish (foldl (spec_feed bs) (Some cur, cs) rest)"
proof (induction rest arbitrary: cs cur)
  case Nil
  then show ?case by simp
next
  case (Cons t rest)
  have a: "absorb cur t = \<lparr>time = time cur, open = open cur, high = max (high cur) (price t),
                  low = min (low cur) (price t), close = price t,
                  volume = volume cur + tick.volume t\<rparr>"
    by (simp add: absorb_def)
  have b: "start_bucket (bucket_of bs (ts t)) t = spec_seed bs t"
    by (simp add: start_bucket_def spec_seed_def spec_bucketStart_def bucket_of_def)
  have c: "spec_bucketStart bs t = bucket_of bs (ts t)"
    by (simp add: spec_bucketStart_def bucket_of_def)
  show ?case
    by (cases "bucket_of bs (ts t) = time cur") (simp_all add: Cons.IH a b c)
qed

lemma valid_spec: "aggregate_valid bs vs = spec_candles bs vs"
proof (cases vs)
  case Nil
  then show ?thesis by (simp add: aggregate_valid_def spec_candles_def)
next
  case (Cons v0 rest)
  have "start_bucket (bucket_of bs (ts v0)) v0 = spec_seed bs v0"
    by (simp add: start_bucket_def spec_seed_def spec_bucketStart_def bucket_of_def)
  with Cons show ?thesis by (simp add: aggregate_valid_def spec_candles_def loop_spec)
qed

lemma scenario_5m: "aggregateCandles scenario_getTime scenario_items TF_5m =
  [\<lparr>time = 1772357400, open = 100, high = 101, low = 100, close = 101, volume = 15\<rparr>,
   \<lparr>time = 1772357700, open = 99, high = 99, low = 99, close = 99, volume = 7\<rparr>]"
  by (simp add: aggregateCandles_def aggregate_valid_def valid_def surviving_def to_tick_def
      parseIntradayTime_def split_T_0_def scenario_items_def raw_def scenario_getTime_def
      bucketSeconds_def bucket_of_def start_bucket_def absorb_def)

lemma scenario_1m: "aggregateCandles scenario_getTime scenario_items TF_1m =
  [\<lparr>time = 1772357400, open = 100, high = 100, low = 100, close = 100, volume = 10\<rparr>,
   \<lparr>time = 1772357460, open = 101, high = 101, low = 101, close = 101, volume = 5\<rparr>,
   \<lparr>time = 1772357700, open = 99, high = 99, low = 99, close = 99, volume = 7\<rparr>]"
  by (simp add: aggregateCandles_def aggregate_valid_def valid_def surviving_def to_tick_def
      parseIntradayTime_def split_T_0_def scenario_items_def raw_def scenario_getTime_def
      bucketSeconds_def bucket_of_def start_bucket_def absorb_def)

lemma to_tick_None_iff:
  "to_tick gt item = None \<longleftrightarrow>
     falsy_string (lastSaleTime item) \<or> falsy_string (date item) \<or> securityLastPrice item = None \<or>
     gt (split_T_0 (the (date item)) @ ''T'' @ the (lastSaleTime item)) = None"
  by (auto simp: to_tick_def parseIntradayTime_def Let_def split: option.splits)

lemma surviving_map_filter: "surviving gt its = List.map_filter (to_tick gt) its"
  by (induction its) (auto simp: surviving_def List.map_filter_def)

lemma set_valid: "set (valid gt its) = {t. \<exists>item\<in>set its. to_tick gt item = Some t}"
  by (auto simp: valid_def surviving_def image_iff) force

lemma valid_stable: "filter (\<lambda>t. ts t = k) (valid gt its) = filter (\<lambda>t. ts t = k) (surviving gt its)"
  by (simp add: valid_def sort_key_stable)

lemma valid_all_rejected: "\<forall>item\<in>set its. to_tick gt item = None \<Longrightarrow> valid gt its = []"
  by (induction its) (auto simp: valid_def surviving_def)

lemma length_valid: "length (valid gt its) = length (filter (\<lambda>item. to_tick gt item \<noteq> None) its)"
  by (induction its) (auto simp: valid_def surviving_def)

lemma loop_keeps: "c \<in> set cs \<Longrightarrow> c \<in> set (aggregate_loop bs rest cs cur)"
  by (induction rest arbitrary: cs cur) (auto simp: Let_def)

lemma loop_cur:
  fixes cur :: "('p::linorder, 'v::plus) AggregatedCandle"
  assumes "time cur = b" "low cur \<le> p" "p \<le> high cur"
  shows "\<exists>c\<in>set (aggregate_loop bs rest cs cur). time c = b \<and> low c \<le> p \<and> p \<le> high c"
  using assms
proof (induction rest arbitrary: cs cur)
  case Nil
  then show ?case by simp
next
  case (Cons t rest)
  show ?case
  proof (cases "bucket_of bs (ts t) \<noteq> time cur")
    case True
    have "cur \<in> set (aggregate_loop bs rest (cs @ [cur]) (start_bucket (bucket_of bs (ts t)) t))"
      by (rule loop_keeps) simp
    with True Cons.prems show ?thesis by auto
  next
    case False
    have "\<exists>c\<in>set (aggregate_loop bs rest cs (absorb cur t)). time c = b \<and> low c \<le> p \<and> p \<le> high c"
      using Cons.prems by (intro Cons.IH) (auto simp: absorb_def min_le_iff_disj le_max_iff_disj)
    with False show ?thesis by simp
  qed
qed

lemma loop_covers:
  fixes cur :: "('p::linorder, 'v::plus) AggregatedCandle"
  assumes "t \<in> set rest"
  shows "\<exists>c\<in>set (aggregate_loop bs rest cs cur).
           time c = bucket_of bs (ts t) \<and> low c \<le> price t \<and> price t \<le> high c"
  using assms
proof (induction rest arbitrary: cs cur)
  case Nil
  then show ?case by simp
next
  case (Cons u rest)
  show ?case
  proof (cases "t = u")
    case True
    show ?thesis
    proof (cases "bucket_of bs (ts u) \<noteq> time cur")
      case ne: True
      have "\<exists>c\<in>set (aggregate_loop bs rest (cs @ [cur]) (start_bucket (bucket_of bs (ts u)) u)).
              time c = bucket_of bs (ts t) \<and> low c \<le> price t \<and> price t \<le> high c"
        using True by (intro loop_cur) (simp_all add: start_bucket_def)
      with ne show ?thesis by simp
    next
      case False
      have "\<exists>c\<in>set (aggregate_loop bs rest cs (absorb cur u)).
              time c = bucket_of bs (ts t) \<and> low c \<le> price t \<and> price t \<le> high c"
        using True False by (intro loop_cur) (simp_all add: absorb_def)
      with False show ?thesis by simp
    qed
  next
    case False
    with Cons.prems have "t \<in> set rest" by simp
    then show ?thesis using Cons.IH by (cases "bucket_of bs (ts u) \<noteq> time cur") simp_all
  qed
qed

lemma valid_covers:
  fixes vs :: "('p::linorder, 'v::plus) tick list"
  assumes "t \<in> set vs"
  shows "\<exists>c\<in>set (aggregate_valid bs vs).
           time c = bucket_of bs (ts t) \<and> low c \<le> price t \<and> price t \<le> high c"
proof (cases vs)
  case Nil
  with assms show ?thesis by simp
next
  case (Cons v0 rest)
  show ?thesis
  proof (cases "t = v0")
    case True
    have "\<exists>c\<in>set (aggregate_loop bs rest [] (start_bucket (bucket_of bs (ts v0)) v0)).
           time c = bucket_of bs (ts t) \<and> low c \<le> price t \<and> price t \<le> high c"
      using True by (intro loop_cur) (simp_all add: start_bucket_def)
    with Cons show ?thesis by (simp add: aggregate_valid_def)
  next
    case False
    with assms Cons have "t \<in> set rest" by simp
    from loop_covers[OF this] Cons show ?thesis by (simp add: aggregate_valid_def)
  qed
qed

section \<open>Properties of the effects and handlers\<close>

lemma derived_cong:
  assumes "data s' = data s" "selectedTimeframe s' = selectedTimeframe s"
  shows "candles h s' = candles h s" "candleData h s' = candleData h s" "legendMap h s' = legendMap h s"
  using assms by (simp_all add: candles_def candleData_def legendMap_def split: option.splits)

lemma autoFetch_idle: "\<not> needsAutoFetch s \<Longrightarrow> autoFetch_effect h s = s"
  by (simp add: autoFetch_effect_def)

lemma legendMap_last:
  "cs \<noteq> [] \<Longrightarrow>
   foldl (\<lambda>m c. m(time c \<mapsto> legend_of c)) m0 cs (time (last cs)) = Some (legend_of (last cs))"
  by (induction cs rule: rev_induct) simp_all

lemma select_last_eq:
  "select_last h s = (if candles h s = [] then s else s\<lparr>legendValues := Some (legend_of (last (candles h s)))\<rparr>)"
proof (cases "candles h s = []")
  case True
  then show ?thesis by (simp add: select_last_def candleData_def)
next
  case False
  then obtain d where d: "data s = Some d" "items d \<noteq> []"
    "candles h s = aggregateCandles (getTime h) (items d) (selectedTimeframe s)"
    by (auto simp: candles_def split: option.splits if_splits)
  have "legendMap h s (time (last (candles h s))) = Some (legend_of (last (candles h s)))"
    using False d by (simp add: legendMap_def legendMap_last)
  with False show ?thesis by (simp add: select_last_def candleData_def last_map)
qed

lemma defaultLegend_eq:
  "defaultLegend_effect h s =
     (if legendValues s = None then s\<lparr>legendValues := default_legend h s\<rparr> else s)"
  by (simp add: defaultLegend_effect_def select_last_eq default_legend_def candleData_def)

lemma sync_idle_iff:
  "syncSymbol_effect s = s \<longleftrightarrow> \<not> (\<exists>d. data s = Some d \<and> symbol d \<noteq> [] \<and> symbolInput s = [])"
proof (cases "data s")
  case None
  then show ?thesis by (simp add: syncSymbol_effect_def)
next
  case (Some d)
  show ?thesis
  proof (cases "symbol d \<noteq> [] \<and> symbolInput s = []")
    case True
    then have "symbolInput (syncSymbol_effect s) \<noteq> symbolInput s"
      using Some by (simp add: syncSymbol_effect_def)
    then have "syncSymbol_effect s \<noteq> s" by auto
    with True Some show ?thesis by simp
  next
    case False
    with Some show ?thesis by (auto simp: syncSymbol_effect_def)
  qed
qed

lemma quiescent_iff:
  "quiescent h s \<longleftrightarrow>
     \<not> needsAutoFetch s \<and>
     (legendValues s = None \<longrightarrow> candles h s = []) \<and>
     \<not> (\<exists>d. data s = Some d \<and> symbol d \<noteq> [] \<and> symbolInput s = [])"
proof
  assume q: "quiescent h s"
  then have e: "syncSymbol_effect (defaultLegend_effect h (autoFetch_effect h s)) = s"
    by (simp add: quiescent_def effects_def)
  have "needsAutoFetch (syncSymbol_effect (defaultLegend_effect h (autoFetch_effect h s))) = False"
    by (simp add: syncSymbol_effect_def defaultLegend_eq autoFetch_effect_def Let_def split: option.splits)
  with e have n: "\<not> needsAutoFetch s" by simp
  then have e2: "syncSymbol_effect (defaultLegend_effect h s) = s"
    using e by (simp add: autoFetch_idle)
  have "legendValues (syncSymbol_effect (defaultLegend_effect h s)) = legendValues (defaultLegend_effect h s)"
    by (simp add: syncSymbol_effect_def split: option.splits)
  with e2 have l: "legendValues (defaultLegend_effect h s) = legendValues s" by simp
  then have l2: "legendValues s = None \<longrightarrow> candles h s = []"
    by (auto simp: defaultLegend_eq default_legend_def split: if_splits)
  then have "defaultLegend_effect h s = s"
    by (auto simp: defaultLegend_eq default_legend_def)
  with e2 have "syncSymbol_effect s = s" by simp
  with n l2 show "\<not> needsAutoFetch s \<and> (legendValues s = None \<longrightarrow> candles h s = []) \<and>
     \<not> (\<exists>d. data s = Some d \<and> symbol d \<noteq> [] \<and> symbolInput s = [])"
    by (simp add: sync_idle_iff)
next
  assume a: "\<not> needsAutoFetch s \<and> (legendValues s = None \<longrightarrow> candles h s = []) \<and>
     \<not> (\<exists>d. data s = Some d \<and> symbol d \<noteq> [] \<and> symbolInput s = [])"
  then have "defaultLegend_effect h s = s"
    by (auto simp: defaultLegend_eq default_legend_def)
  moreover have "syncSymbol_effect s = s" using a by (simp add: sync_idle_iff)
  ultimately show "quiescent h s"
    using a by (simp add: quiescent_def effects_def autoFetch_idle)
qed

lemma effects_idem: "effects h (effects h s) = effects h s"
proof -
  let ?a = "autoFetch_effect h s"
  let ?b = "defaultLegend_effect h ?a"
  let ?c = "syncSymbol_effect ?b"
  have da: "data ?a = data s" "selectedTimeframe ?a = selectedTimeframe s" "\<not> needsAutoFetch ?a"
    by (simp_all add: autoFetch_effect_def Let_def)
  have db: "data ?b = data ?a" "selectedTimeframe ?b = selectedTimeframe ?a" "needsAutoFetch ?b = needsAutoFetch ?a"
    "symbolInput ?b = symbolInput ?a"
    "legendValues ?b = None \<longrightarrow> candles h ?a = []"
    by (simp_all add: defaultLegend_eq default_legend_def)
  have dc: "data ?c = data ?b" "selectedTimeframe ?c = selectedTimeframe ?b" "needsAutoFetch ?c = needsAutoFetch ?b"
    "legendValues ?c = legendValues ?b"
    by (simp_all add: syncSymbol_effect_def split: option.splits)
  have cc: "candles h ?c = candles h ?a"
    using derived_cong(1)[of ?c ?a h] db dc by simp
  have sy: "\<not> (\<exists>d. data ?c = Some d \<and> symbol d \<noteq> [] \<and> symbolInput ?c = [])"
    by (auto simp: syncSymbol_effect_def split: option.splits if_splits)
  have "quiescent h ?c"
    unfolding quiescent_iff using da db dc cc sy by simp
  then show ?thesis by (simp add: quiescent_def effects_def)
qed

lemma quiescent_step: "quiescent h (step h s e)"
  by (simp add: quiescent_def step_def effects_idem)

lemma quiescent_initial: "quiescent h initial"
  by (simp add: quiescent_iff initial_def candles_def)

lemma quiescent_run: "quiescent h (run h initial es)"
  by (induction es rule: rev_induct) (simp_all add: run_def quiescent_initial quiescent_step)

lemma effects_frame:
  "data (effects h s) = data s"
  "selectedTimeframe (effects h s) = selectedTimeframe s"
  "isRefreshing (effects h s) = isRefreshing s"
  "refreshError (effects h s) = refreshError s"
  "needsAutoFetch (effects h s) = False"
  by (simp_all add: effects_def syncSymbol_effect_def defaultLegend_eq autoFetch_effect_def Let_def
      split: option.splits)

lemma effects_inflight: "\<not> needsAutoFetch s \<Longrightarrow> inflight (effects h s) = inflight s"
  by (simp add: effects_def syncSymbol_effect_def defaultLegend_eq autoFetch_idle split: option.splits)

lemma quiescent_frame:
  assumes "quiescent h s" "data s' = data s" "selectedTimeframe s' = selectedTimeframe s"
    "needsAutoFetch s' = needsAutoFetch s" "legendValues s' = legendValues s"
    "symbolInput s' = symbolInput s"
  shows "effects h s' = s'"
proof -
  have "candles h s' = candles h s" using assms(2,3) by (rule derived_cong)
  with assms have "quiescent h s'" by (simp add: quiescent_iff)
  then show ?thesis by (simp add: quiescent_def)
qed

lemma step_handleRefresh:
  assumes "quiescent h s"
  shows "effects h (handleRefresh s a) = handleRefresh s a"
  using assms by (rule quiescent_frame) (simp_all add: handleRefresh_def)

lemma candles_tf:
  "candles h (s\<lparr>selectedTimeframe := tf, legendValues := lv\<rparr>) =
     (case data s of None \<Rightarrow> [] | Some d \<Rightarrow> aggregateCandles (getTime h) (items d) tf)"
  by (simp add: candles_def aggregateCandles_def valid_def surviving_def aggregate_valid_def
      split: option.splits)

lemma handle_settle_new:
  "extractIntradayData h r = Some fetched \<Longrightarrow>
   handle h (handleRefresh t a) (Settled (length (inflight t)) (Resolved r)) =
     t\<lparr>data := Some fetched, legendValues := None, refreshError := None, isRefreshing := False\<rparr>"
  by (simp add: handleRefresh_def handleRefresh_settled_def Let_def nth_append)

lemma handle_needsAutoFetch:
  assumes "\<not> needsAutoFetch s" and "\<forall>r. e \<noteq> ToolResult r"
  shows "\<not> needsAutoFetch (handle h s e)"
proof (cases e)
  case (ToolResult r)
  with assms(2) show ?thesis by simp
next
  case (Settled i out)
  with assms(1) show ?thesis
    by (auto simp: Let_def autoFetch_settled_def handleRefresh_settled_def
        split: caller.splits outcome.splits option.splits)
next
  case (CrosshairMove t)
  with assms(1) show ?thesis
    by (auto simp: handleCrosshairMove_def select_last_eq split: option.splits)
qed (use assms(1) in \<open>auto simp: handleRefreshClick_def handleRefresh_def split: option.splits\<close>)

lemma handle_autoFetch_count:
  "length (filter (\<lambda>q. caller q = AutoFetch) (inflight (handle h s e)))
     \<le> length (filter (\<lambda>q. caller q = AutoFetch) (inflight s))"
proof (cases e)
  case (ToolResult r)
  then show ?thesis by (simp add: ontoolresult_def split: option.splits)
next
  case (Settled i out)
  have "length (filter P (take i xs @ drop (Suc i) xs)) \<le> length (filter P xs)"
    for P :: "request \<Rightarrow> bool" and xs
  proof -
    have "length (filter P xs) = length (filter P (take i xs)) + length (filter P (drop i xs))"
      by (metis append_take_drop_id filter_append length_append)
    moreover have "length (filter P (drop (Suc i) xs)) \<le> length (filter P (drop i xs))"
      by (cases "i < length xs") (simp_all add: Cons_nth_drop_Suc[symmetric])
    ultimately show ?thesis by simp
  qed
  with Settled show ?thesis
    by (auto simp: Let_def autoFetch_settled_def handleRefresh_settled_def
        split: caller.splits outcome.splits option.splits)
next
  case (CrosshairMove t)
  then show ?thesis
    by (auto simp: handleCrosshairMove_def select_last_eq split: option.splits)
qed (auto simp: handleRefreshClick_def handleRefresh_def split: option.splits)

lemma refresh_paths:
  assumes "e \<in> {ClickRefresh, KeyDownEnter, IntervalTick}"
  shows "handle h s e = s \<or> (\<exists>a. handle h s e = handleRefresh s a)"
proof -
  have 1: "handle h s ClickRefresh = s \<or>
           handle h s ClickRefresh = handleRefresh s (Some (Symbol (trim (symbolInput s))))"
    by (simp add: handleRefreshClick_def)
  have 2: "handle h s KeyDownEnter = s \<or>
           handle h s KeyDownEnter = handleRefresh s (Some (Symbol (trim (symbolInput s))))"
    by (simp add: handleRefreshClick_def)
  have 3: "handle h s IntervalTick = s \<or>
           (\<exists>n. handle h s IntervalTick = handleRefresh s (Some (SecurityId n)))"
    by (cases "data s") auto
  from assms 1 2 3 show ?thesis by blast
qed

lemma scenario_candles_5m:
  "candles scenario_host (s\<lparr>data := Some scenario_data, selectedTimeframe := TF_5m\<rparr>) =
  [\<lparr>time = 1772357400, open = 100, high = 101, low = 100, close = 101, volume = 15\<rparr>,
   \<lparr>time = 1772357700, open = 99, high = 99, low = 99, close = 99, volume = 7\<rparr>]"
  by (simp add: candles_def scenario_data_def scenario_host_def scenario_5m) (simp add: scenario_items_def)

lemma run_loaded: "run scenario_host initial [ToolResult True] = scenario_loaded"
proof -
  let ?a = "initial\<lparr>data := Some scenario_data\<rparr> :: (rat, rat) widget"
  have h: "handle scenario_host initial (ToolResult True) = ?a"
    by (simp add: ontoolresult_def scenario_host_def)
  have a: "autoFetch_effect scenario_host ?a = ?a"
    by (simp add: autoFetch_idle initial_def)
  have c: "candles scenario_host ?a =
    [\<lparr>time = 1772357400, open = 100, high = 101, low = 100, close = 101, volume = 15\<rparr>,
     \<lparr>time = 1772357700, open = 99, high = 99, low = 99, close = 99, volume = 7\<rparr>]"
    using scenario_candles_5m[of initial] by (simp add: initial_def)
  have b: "defaultLegend_effect scenario_host ?a =
     ?a\<lparr>legendValues := Some \<lparr>LegendValues.open = 99, high = 99, low = 99, close = 99,
                            change = Some 0, volume = 7\<rparr>\<rparr>"
    by (simp add: defaultLegend_eq default_legend_def c legend_of_def) (simp add: initial_def)
  have "step scenario_host initial (ToolResult True) =
     syncSymbol_effect (?a\<lparr>legendValues := Some \<lparr>LegendValues.open = 99, high = 99, low = 99, close = 99,
                            change = Some 0, volume = 7\<rparr>\<rparr>)"
    by (simp only: step_def h effects_def a b)
  then show ?thesis
    by (simp add: run_def syncSymbol_effect_def initial_def scenario_loaded_def scenario_data_def)
qed

lemma scenario_host_simps:
  "getTime scenario_host = scenario_getTime"
  "extractIntradayData scenario_host True = Some scenario_data"
  "extractIntradayData scenario_host False = None"
  "hasCallServerTool scenario_host"
  "items scenario_data = scenario_items"
  "symbol scenario_data = ''TEVA''"
  "IntradayCandlestickWidgetData.securityId scenario_data = 629014"
  by (simp_all add: scenario_host_def scenario_data_def)

lemma scenario_unparsable:
  "Resolved False = Rejected \<or>
     (\<exists>r. Resolved False = Resolved r \<and> extractIntradayData scenario_host r = None)"
  by (rule disjI2, rule exI[of _ False]) (simp add: scenario_host_simps)

lemma quiescent_loaded: "quiescent scenario_host scenario_loaded"
  using quiescent_run[of scenario_host "[ToolResult True]"] by (simp only: run_loaded)

lemma trim_TEVA: "trim ''TEVA'' = ''TEVA''"
  by (simp add: trim_def white_space_def)

lemma trim_no_break_space: "trim [CHR 0xA0, CHR 0x20, CHR 0x09] = []"
  by (simp add: trim_def white_space_def)

lemma click_blank_input:
  "handle h (s\<lparr>symbolInput := [CHR 0xA0]\<rparr>) KeyDownEnter = s\<lparr>symbolInput := [CHR 0xA0]\<rparr>"
  by (simp add: handleRefreshClick_def trim_def white_space_def)

lemma step_click: "step scenario_host scenario_loaded ClickRefresh = scenario_refreshing"
proof -
  have "handle scenario_host scenario_loaded ClickRefresh =
          handleRefresh scenario_loaded (Some (Symbol ''TEVA''))"
    by (simp add: handleRefreshClick_def scenario_loaded_def trim_TEVA)
  then have "step scenario_host scenario_loaded ClickRefresh =
          handleRefresh scenario_loaded (Some (Symbol ''TEVA''))"
    using step_handleRefresh[OF quiescent_loaded] by (simp only: step_def)
  then show ?thesis by (simp add: handleRefresh_def scenario_refreshing_def scenario_loaded_def)
qed

lemma quiescent_refreshing: "quiescent scenario_host scenario_refreshing"
  using quiescent_step[of scenario_host scenario_loaded ClickRefresh] by (simp only: step_click)

lemma valid_sorted_input:
  assumes "\<forall>item\<in>set its. to_tick gt item \<noteq> None" and "sorted (map (\<lambda>item. ts (the (to_tick gt item))) its)"
  shows "valid gt its = map (\<lambda>item. the (to_tick gt item)) its"
proof -
  have "surviving gt its = map (\<lambda>item. the (to_tick gt item)) its"
    using assms(1) by (induction its) (auto simp: surviving_def)
  moreover have "map ts (map (\<lambda>item. the (to_tick gt item)) its) = map (\<lambda>item. ts (the (to_tick gt item))) its"
    by simp
  ultimately have "sorted (map ts (surviving gt its))" using assms(2) by (simp add: o_def)
  then have "valid gt its = surviving gt its"
    unfolding valid_def by (rule sort_key_id_if_sorted)
  then show ?thesis by (simp only: \<open>surviving gt its = map (\<lambda>item. the (to_tick gt item)) its\<close>)
qed

lemma valid_times:
  "time ` set (aggregate_valid bs vs) \<subseteq> (\<lambda>t. bucket_of bs (ts t)) ` set vs"
proof (cases vs)
  case Nil
  then show ?thesis by (simp add: aggregate_valid_def)
next
  case (Cons v0 rest)
  show ?thesis
    using loop_times[of bs rest "[]" "start_bucket (bucket_of bs (ts v0)) v0"] Cons
    by (auto simp: aggregate_valid_def start_bucket_def)
qed

section \<open>The claims\<close>

subsection \<open>Aggregation\<close>

text \<open>
  Claim C1. \<^verbatim>\<open>aggregateCandles\<close> produces the candle sequence of the streaming
  accumulator: on every tick list the loop of the source returns what the
  specification's accumulator (\<open>spec_candles\<close>) returns, and \<^verbatim>\<open>aggregateCandles\<close> is
  that accumulator run over \<open>valid\<close>. When every record is valid and the records are
  already in time order, \<open>valid\<close> is the list of their ticks in input order. The ticks
  (09:30:00, 100, 10), (09:31:30, 101, 5), (09:35:00, 99, 7) at 5m give the two candles
  of scenario 1.
\<close>

theorem aggregate_streaming:
  fixes its :: "('p::linorder, 'v::{plus,zero}) IntradayItem list"
    and vs :: "('p, 'v) tick list"
  shows "aggregate_valid bs vs = spec_candles bs vs \<and>
         aggregateCandles gt its tf = spec_candles (bucketSeconds tf) (valid gt its) \<and>
         ((\<forall>item\<in>set its. to_tick gt item \<noteq> None) \<and>
          sorted (map (\<lambda>item. ts (the (to_tick gt item))) its) \<longrightarrow>
            aggregateCandles gt its tf =
              spec_candles (bucketSeconds tf) (map (\<lambda>item. the (to_tick gt item)) its)) \<and>
         aggregateCandles scenario_getTime scenario_items TF_5m =
           [\<lparr>time = 1772357400, open = 100, high = 101, low = 100, close = 101, volume = 15\<rparr>,
            \<lparr>time = 1772357700, open = 99, high = 99, low = 99, close = 99, volume = 7\<rparr>]"
proof -
  have 1: "aggregate_valid bs vs = spec_candles bs vs" by (rule valid_spec)
  have 2: "aggregateCandles gt its tf = spec_candles (bucketSeconds tf) (valid gt its)"
    by (simp add: aggregateCandles_def valid_spec)
  have 3: "aggregateCandles gt its tf =
              spec_candles (bucketSeconds tf) (map (\<lambda>item. the (to_tick gt item)) its)"
    if "(\<forall>item\<in>set its. to_tick gt item \<noteq> None) \<and>
          sorted (map (\<lambda>item. ts (the (to_tick gt item))) its)"
  proof -
    from that have "valid gt its = map (\<lambda>item. the (to_tick gt item)) its"
      by (intro valid_sorted_input) simp_all
    then show ?thesis by (simp only: 2)
  qed
  show ?thesis using 1 2 3 scenario_5m by blast
qed

theorem aggregate_streaming_witness:
  "map (to_tick scenario_getTime) scenario_items =
     [Some \<lparr>ts = 1772357400, price = 100, volume = 10\<rparr>,
      Some \<lparr>ts = 1772357490, price = 101, volume = 5\<rparr>,
      Some \<lparr>ts = 1772357700, price = 99, volume = 7\<rparr>] \<and>
   sorted (map (\<lambda>item. ts (the (to_tick scenario_getTime item))) scenario_items) \<and>
   spec_candles 300 (map (\<lambda>item. the (to_tick scenario_getTime item)) scenario_items) =
     [\<lparr>time = 1772357400, open = 100, high = 101, low = 100, close = 101, volume = 15\<rparr>,
      \<lparr>time = 1772357700, open = 99, high = 99, low = 99, close = 99, volume = 7\<rparr>]"
proof -
  have m: "map (to_tick scenario_getTime) scenario_items =
     [Some \<lparr>ts = 1772357400, price = 100, volume = 10\<rparr>,
      Some \<lparr>ts = 1772357490, price = 101, volume = 5\<rparr>,
      Some \<lparr>ts = 1772357700, price = 99, volume = 7\<rparr>]"
    by (simp add: to_tick_def parseIntradayTime_def split_T_0_def
      scenario_items_def raw_def scenario_getTime_def)
  have a: "\<forall>item\<in>set scenario_items. to_tick scenario_getTime item \<noteq> None"
    by (simp add: to_tick_def parseIntradayTime_def split_T_0_def
      scenario_items_def raw_def scenario_getTime_def)
  have b: "sorted (map (\<lambda>item. ts (the (to_tick scenario_getTime item))) scenario_items)"
    by (simp add: to_tick_def parseIntradayTime_def split_T_0_def
      scenario_items_def raw_def scenario_getTime_def)
  have c: "bucketSeconds TF_5m = 300" by (simp add: bucketSeconds_def)
  from aggregate_streaming[of _ _ scenario_getTime scenario_items TF_5m] a b
  have "spec_candles (bucketSeconds TF_5m) (map (\<lambda>item. the (to_tick scenario_getTime item)) scenario_items) =
     [\<lparr>time = 1772357400, open = 100, high = 101, low = 100, close = 101, volume = 15\<rparr>,
      \<lparr>time = 1772357700, open = 99, high = 99, low = 99, close = 99, volume = 7\<rparr>]"
    by metis
  with m b c show ?thesis by simp
qed

text \<open>
  Claim C3. On every input and for every timeframe, each produced candle has
  \<open>low \<le> min open close\<close> and \<open>max open close \<le> high\<close>. The order on prices is any
  linear order.
\<close>

theorem ohlc_invariant:
  fixes its :: "('p::linorder, 'v::{plus,zero}) IntradayItem list"
    and vs :: "('p, 'v) tick list"
  shows "(\<forall>c\<in>set (aggregate_valid bs vs).
            low c \<le> min (open c) (close c) \<and> max (open c) (close c) \<le> high c) \<and>
         (\<forall>c\<in>set (aggregateCandles gt its tf).
            low c \<le> min (open c) (close c) \<and> max (open c) (close c) \<le> high c)"
proof -
  have "\<forall>c\<in>set (aggregate_valid bs' ws).
            low c \<le> min (open c) (close c) \<and> max (open c) (close c) \<le> high c"
    for bs' and ws :: "('p, 'v) tick list"
  proof (cases ws)
    case Nil
    then show ?thesis by (simp add: aggregate_valid_def)
  next
    case (Cons v0 rest)
    have "\<forall>c\<in>set (aggregate_loop bs' rest [] (start_bucket (bucket_of bs' (ts v0)) v0)).
            low c \<le> min (open c) (close c) \<and> max (open c) (close c) \<le> high c"
    proof (rule loop_all[where P = "\<lambda>c. low c \<le> min (open c) (close c) \<and> max (open c) (close c) \<le> high c"])
      show "\<forall>c\<in>set ([] :: ('p, 'v) AggregatedCandle list).
              low c \<le> min (open c) (close c) \<and> max (open c) (close c) \<le> high c"
        by simp
    qed (rule ohlc_start ohlc_absorb, assumption?)+
    with Cons show ?thesis by (simp add: aggregate_valid_def)
  qed
  then show ?thesis by (simp add: aggregateCandles_def)
qed

theorem ohlc_invariant_witness:
  "\<lparr>time = 1772357400, open = 100, high = 101, low = 100, close = 101, volume = 15\<rparr>
     \<in> set (aggregateCandles scenario_getTime scenario_items TF_5m) \<and>
   low \<lparr>time = 1772357400, open = 100 :: rat, high = 101, low = 100, close = 101, volume = 15 :: rat\<rparr>
     \<le> min (100 :: rat) 101 \<and>
   max (100 :: rat) 101
     \<le> high \<lparr>time = 1772357400, open = 100 :: rat, high = 101, low = 100, close = 101, volume = 15 :: rat\<rparr>"
proof -
  let ?c = "\<lparr>time = 1772357400, open = 100 :: rat, high = 101, low = 100, close = 101, volume = 15 :: rat\<rparr>"
  have m: "?c \<in> set (aggregateCandles scenario_getTime scenario_items TF_5m)"
    by (simp add: scenario_5m)
  from ohlc_invariant[of _ _ scenario_getTime scenario_items TF_5m, THEN conjunct2, THEN bspec, OF m]
  show ?thesis using m by simp
qed

text \<open>
  Claim C4. On every input and for every timeframe, the bucket starts of the returned
  candles are strictly increasing; in particular no bucket start occurs twice.
\<close>

theorem strictly_increasing_buckets:
  fixes its :: "('p::linorder, 'v::{plus,zero}) IntradayItem list"
  shows "sorted_wrt (<) (map time (aggregateCandles gt its tf)) \<and>
         distinct (map time (aggregateCandles gt its tf))"
proof -
  have "sorted_wrt (<) (map time (aggregateCandles gt its tf))"
    unfolding aggregateCandles_def
    by (rule valid_increasing[OF bucketSeconds_pos sorted_valid])
  then show ?thesis by (simp add: strict_sorted_iff)
qed

theorem strictly_increasing_buckets_witness:
  "map time (aggregateCandles scenario_getTime scenario_items TF_1m) =
     [1772357400, 1772357460, 1772357700] \<and>
   sorted_wrt (<) [1772357400, 1772357460, 1772357700 :: int]"
  using strictly_increasing_buckets[of scenario_getTime scenario_items TF_1m]
  by (simp add: scenario_1m)

text \<open>
  Claim C9. The bucket start of every produced candle is a multiple of the bucket length
  of the timeframe, and it is \<open>\<lfloor>t / bucketSeconds\<rfloor> * bucketSeconds\<close> for the time \<open>t\<close> of
  a valid tick; the bucket lengths of 1m, 3m, 5m, 10m, 30m, 1h are 60, 180, 300, 600,
  1800, 3600 seconds.
\<close>

theorem bucket_alignment:
  fixes its :: "('p::linorder, 'v::{plus,zero}) IntradayItem list"
  shows "(\<forall>c\<in>set (aggregateCandles gt its tf).
            bucketSeconds tf dvd time c \<and>
            (\<exists>t\<in>set (valid gt its). time c = bucket_of (bucketSeconds tf) (ts t))) \<and>
         bucket_of b x = \<lfloor>real_of_int x / real_of_int b\<rfloor> * b \<and>
         TIMEFRAMES = [TF_1m, TF_3m, TF_5m, TF_10m, TF_30m, TF_1h] \<and>
         map bucketSeconds TIMEFRAMES = [60, 180, 300, 600, 1800, 3600]"
proof -
  have 1: "\<exists>t\<in>set (valid gt its). time c = bucket_of (bucketSeconds tf) (ts t)"
    if "c \<in> set (aggregateCandles gt its tf)" for c
    using that valid_times[of "bucketSeconds tf" "valid gt its"]
    by (auto simp: aggregateCandles_def)
  have 2: "bucketSeconds tf dvd time c" if "c \<in> set (aggregateCandles gt its tf)" for c
    using 1[OF that] by (auto simp: bucket_of_def)
  have 3: "bucket_of b x = \<lfloor>real_of_int x / real_of_int b\<rfloor> * b"
    by (simp add: bucket_of_def floor_divide_of_int_eq)
  show ?thesis using 1 2 3 by (simp add: bucketSeconds_def TIMEFRAMES_def)
qed

theorem bucket_alignment_witness:
  "\<lparr>time = 1772357700, open = 99, high = 99, low = 99, close = 99, volume = 7\<rparr>
     \<in> set (aggregateCandles scenario_getTime scenario_items TF_5m) \<and>
   bucketSeconds TF_5m = 300 \<and>
   (300 :: int) dvd 1772357700"
proof -
  let ?c = "\<lparr>time = 1772357700, open = 99 :: rat, high = 99, low = 99, close = 99, volume = 7 :: rat\<rparr>"
  have m: "?c \<in> set (aggregateCandles scenario_getTime scenario_items TF_5m)"
    by (simp add: scenario_5m)
  have b: "bucketSeconds TF_5m = 300" by (simp add: bucketSeconds_def)
  from bucket_alignment[of scenario_getTime scenario_items TF_5m, THEN conjunct1, THEN bspec, OF m]
  have "bucketSeconds TF_5m dvd time ?c" by (rule conjunct1)
  then show ?thesis using m b by simp
qed

subsection \<open>Normalization\<close>

text \<open>
  Claim C7. A record is dropped exactly when its time of day is missing or empty, its
  date is missing or empty, its price is missing, or the combined string does not parse;
  a record that is kept carries the parsed time in whole seconds and its price. The kept
  ticks are sorted by time, and for each time the ticks with that time stand in their
  input order. An empty list and a list of dropped records give no tick and no candle.
  No case of the function raises.
\<close>

theorem tick_normalizer:
  fixes its :: "('p::linorder, 'v::{plus,zero}) IntradayItem list"
  shows "(to_tick gt item = None \<longleftrightarrow>
            lastSaleTime item = None \<or> lastSaleTime item = Some [] \<or>
            date item = None \<or> date item = Some [] \<or>
            securityLastPrice item = None \<or>
            gt (split_T_0 (the (date item)) @ ''T'' @ the (lastSaleTime item)) = None) \<and>
         (\<forall>t. to_tick gt item = Some t \<longrightarrow>
            (\<exists>ms. gt (split_T_0 (the (date item)) @ ''T'' @ the (lastSaleTime item)) = Some ms \<and>
                  ts t = ms div 1000) \<and>
            securityLastPrice item = Some (price t)) \<and>
         surviving gt its = List.map_filter (to_tick gt) its \<and>
         set (valid gt its) = set (surviving gt its) \<and>
         sorted (map ts (valid gt its)) \<and>
         (\<forall>k. filter (\<lambda>t. ts t = k) (valid gt its) = filter (\<lambda>t. ts t = k) (surviving gt its)) \<and>
         length (valid gt its) = length (filter (\<lambda>item. to_tick gt item \<noteq> None) its) \<and>
         valid gt [] = [] \<and> aggregateCandles gt [] tf = [] \<and>
         ((\<forall>item\<in>set its. to_tick gt item = None) \<longrightarrow>
            valid gt its = [] \<and> aggregateCandles gt its tf = [])"
proof -
  have 1: "to_tick gt item = None \<longleftrightarrow>
            lastSaleTime item = None \<or> lastSaleTime item = Some [] \<or>
            date item = None \<or> date item = Some [] \<or>
            securityLastPrice item = None \<or>
            gt (split_T_0 (the (date item)) @ ''T'' @ the (lastSaleTime item)) = None"
    unfolding to_tick_None_iff
    by (cases "lastSaleTime item"; cases "date item") auto
  have 2: "(\<exists>ms. gt (split_T_0 (the (date item)) @ ''T'' @ the (lastSaleTime item)) = Some ms \<and>
                  ts t = ms div 1000) \<and>
            securityLastPrice item = Some (price t)" if "to_tick gt item = Some t" for t
    using that by (auto simp: to_tick_def parseIntradayTime_def Let_def split: option.splits if_splits)
  have 3: "valid gt [] = []" by (simp add: valid_def surviving_def)
  have 4: "valid gt its = [] \<and> aggregateCandles gt its tf = []"
    if "\<forall>item\<in>set its. to_tick gt item = None"
    using valid_all_rejected[OF that] by (simp add: aggregateCandles_def aggregate_valid_def)
  have 5: "aggregateCandles gt [] tf = []"
    by (simp add: aggregateCandles_def aggregate_valid_def 3)
  have 6: "set (valid gt its) = set (surviving gt its)" by (simp add: valid_def)
  show ?thesis
    using 1 2 3 4 5 6 surviving_map_filter[of gt its] sorted_valid[of gt its]
      valid_stable[of _ gt its] length_valid[of gt its]
    by blast
qed

theorem tick_normalizer_witness:
  "lastSaleTime scenario_no_time = None \<and>
   to_tick scenario_getTime scenario_no_time = None \<and>
   valid scenario_getTime [scenario_no_time] = [] \<and>
   aggregateCandles scenario_getTime [scenario_no_time] TF_5m = [] \<and>
   to_tick scenario_getTime (raw ''2026-03-01'' ''09:30:00'' 100 10 :: (rat, rat) IntradayItem) =
     Some \<lparr>ts = 1772357400, price = 100, volume = 10\<rparr> \<and>
   scenario_getTime ''2026-03-01T09:30:00'' = Some 1772357400000"
proof -
  let ?r = "raw ''2026-03-01'' ''09:30:00'' 100 10 :: (rat, rat) IntradayItem"
  have a: "lastSaleTime scenario_no_time = None" by (simp add: scenario_no_time_def)
  note n = tick_normalizer[of scenario_getTime scenario_no_time "[scenario_no_time]" TF_5m]
  from n a have b: "to_tick scenario_getTime scenario_no_time = None" by blast
  then have c: "\<forall>item\<in>set [scenario_no_time]. to_tick scenario_getTime item = None" by simp
  with n have d: "valid scenario_getTime [scenario_no_time] = [] \<and>
    aggregateCandles scenario_getTime [scenario_no_time] TF_5m = []" by blast
  have e: "to_tick scenario_getTime ?r = Some \<lparr>ts = 1772357400, price = 100, volume = 10\<rparr>"
    by (simp add: to_tick_def raw_def parseIntradayTime_def split_T_0_def scenario_getTime_def)
  from tick_normalizer[of scenario_getTime ?r "[]" TF_5m] e
  have "\<exists>ms. scenario_getTime (split_T_0 (the (date ?r)) @ ''T'' @ the (lastSaleTime ?r)) = Some ms \<and>
      ts \<lparr>ts = 1772357400, price = 100 :: rat, volume = 10 :: rat\<rparr> = ms div 1000"
    by blast
  then have f: "scenario_getTime ''2026-03-01T09:30:00'' = Some 1772357400000"
    by (auto simp: raw_def split_T_0_def scenario_getTime_def)
  show ?thesis using a b d e f by simp
qed

text \<open>
  Claim C10. A record with date, time and price that parse and with a null volume is
  kept as a tick of volume 0. Its price lies between the low and the high of a candle of
  its bucket; starting a bucket from it gives volume 0, and absorbing it into a bucket
  moves high, low and close and leaves the volume as it was.
\<close>

theorem null_volume_kept:
  fixes item :: "('p::linorder, 'v::monoid_add) IntradayItem"
    and cur :: "('p, 'v) AggregatedCandle"
  assumes "parseIntradayTime gt item = Some t" and "securityLastPrice item = Some p"
    and "lastSellVolume item = None"
  shows "to_tick gt item = Some \<lparr>ts = t, price = p, volume = 0\<rparr> \<and>
         (item \<in> set its \<longrightarrow>
            \<lparr>ts = t, price = p, volume = 0\<rparr> \<in> set (valid gt its) \<and>
            (\<exists>c\<in>set (aggregateCandles gt its tf).
               time c = bucket_of (bucketSeconds tf) t \<and> low c \<le> p \<and> p \<le> high c)) \<and>
         start_bucket b \<lparr>ts = t, price = p, volume = 0\<rparr> =
           \<lparr>time = b, open = p, high = p, low = p, close = p, volume = 0 :: 'v\<rparr> \<and>
         absorb cur \<lparr>ts = t, price = p, volume = 0\<rparr> =
           cur\<lparr>high := max (high cur) p, low := min (low cur) p, close := p\<rparr>"
proof -
  let ?t = "\<lparr>ts = t, price = p, volume = 0\<rparr> :: ('p, 'v) tick"
  have 1: "to_tick gt item = Some ?t" using assms by (simp add: to_tick_def)
  have 2: "?t \<in> set (valid gt its) \<and>
            (\<exists>c\<in>set (aggregateCandles gt its tf).
               time c = bucket_of (bucketSeconds tf) t \<and> low c \<le> p \<and> p \<le> high c)"
    if "item \<in> set its"
  proof -
    have m: "?t \<in> set (valid gt its)" using that 1 by (auto simp: set_valid)
    from valid_covers[OF m, of "bucketSeconds tf"] show ?thesis
      using m by (simp add: aggregateCandles_def)
  qed
  have 3: "start_bucket b ?t = \<lparr>time = b, open = p, high = p, low = p, close = p, volume = 0\<rparr>"
    by (simp add: start_bucket_def)
  have 4: "absorb cur ?t = cur\<lparr>high := max (high cur) p, low := min (low cur) p, close := p\<rparr>"
    by (simp add: absorb_def)
  show ?thesis using 1 2 3 4 by blast
qed

theorem null_volume_kept_witness:
  "parseIntradayTime scenario_getTime scenario_null_volume = Some 1772357490 \<and>
   securityLastPrice scenario_null_volume = Some 101 \<and>
   lastSellVolume scenario_null_volume = None \<and>
   to_tick scenario_getTime scenario_null_volume = Some \<lparr>ts = 1772357490, price = 101, volume = 0\<rparr> \<and>
   aggregateCandles scenario_getTime
     [raw ''2026-03-01'' ''09:30:00'' 100 10, scenario_null_volume] TF_5m =
     [\<lparr>time = 1772357400, open = 100, high = 101, low = 100, close = 101, volume = 10\<rparr>]"
proof -
  have a: "parseIntradayTime scenario_getTime scenario_null_volume = Some 1772357490"
    and b: "securityLastPrice scenario_null_volume = Some 101"
    and c: "lastSellVolume scenario_null_volume = None"
    by (simp_all add: scenario_null_volume_def raw_def parseIntradayTime_def split_T_0_def
        scenario_getTime_def)
  from null_volume_kept[OF a b c]
  have d: "to_tick scenario_getTime scenario_null_volume = Some \<lparr>ts = 1772357490, price = 101, volume = 0\<rparr>"
    by blast
  have "to_tick scenario_getTime (raw ''2026-03-01'' ''09:30:00'' 100 10 :: (rat, rat) IntradayItem) =
          Some \<lparr>ts = 1772357400, price = 100, volume = 10\<rparr>"
    by (simp add: to_tick_def raw_def parseIntradayTime_def split_T_0_def scenario_getTime_def)
  then have e: "aggregateCandles scenario_getTime
     [raw ''2026-03-01'' ''09:30:00'' 100 10, scenario_null_volume] TF_5m =
     [\<lparr>time = 1772357400, open = 100, high = 101, low = 100, close = 101, volume = 10\<rparr>]"
    using d by (simp add: aggregateCandles_def aggregate_valid_def valid_def surviving_def
        bucketSeconds_def bucket_of_def start_bucket_def absorb_def)
  show ?thesis using a b c d e by simp
qed

subsection \<open>Lifecycle\<close>

text \<open>
  Claim C2, as the code has it. A click on the Refresh button while \<open>isRefreshing\<close> is
  set is rejected: no request is started and the state is unchanged. The interval
  callback has no such test: whenever data with a non-empty symbol is loaded, a tick of
  the interval starts a refresh request, also while another request is in flight.
\<close>

theorem refresh_guard:
  assumes "quiescent h s"
  shows "(isRefreshing s \<longrightarrow> step h s ClickRefresh = s) \<and>
         (\<forall>d. data s = Some d \<and> symbol d \<noteq> [] \<longrightarrow>
            step h s IntervalTick =
              s\<lparr>isRefreshing := True, refreshError := None,
                inflight := inflight s @
                  [\<lparr>caller = HandleRefresh,
                    arguments = (if IntradayCandlestickWidgetData.securityId d \<noteq> 0
                                 then Some (SecurityId (IntradayCandlestickWidgetData.securityId d))
                                 else None)\<rparr>]\<rparr>)"
proof -
  have "step h s ClickRefresh = s" if "isRefreshing s"
    using that assms by (simp add: step_def quiescent_def)
  moreover have "step h s IntervalTick =
              s\<lparr>isRefreshing := True, refreshError := None,
                inflight := inflight s @
                  [\<lparr>caller = HandleRefresh,
                    arguments = (if IntradayCandlestickWidgetData.securityId d \<noteq> 0
                                 then Some (SecurityId (IntradayCandlestickWidgetData.securityId d))
                                 else None)\<rparr>]\<rparr>"
    if d: "data s = Some d" "symbol d \<noteq> []" for d
  proof -
    have "handle h s IntervalTick = handleRefresh s (Some (SecurityId (IntradayCandlestickWidgetData.securityId d)))"
      using d by simp
    then have "step h s IntervalTick = handleRefresh s (Some (SecurityId (IntradayCandlestickWidgetData.securityId d)))"
      using step_handleRefresh[OF assms] by (simp only: step_def)
    then show ?thesis by (simp add: handleRefresh_def)
  qed
  ultimately show ?thesis by blast
qed

theorem refresh_guard_witness:
  "quiescent scenario_host scenario_refreshing \<and> isRefreshing scenario_refreshing \<and>
   data scenario_refreshing = Some scenario_data \<and> symbol scenario_data \<noteq> [] \<and>
   step scenario_host scenario_refreshing ClickRefresh = scenario_refreshing \<and>
   length (inflight (step scenario_host scenario_refreshing IntervalTick)) = 2"
proof -
  have r: "isRefreshing scenario_refreshing" by (simp add: scenario_refreshing_def)
  have d: "data scenario_refreshing = Some scenario_data \<and> symbol scenario_data \<noteq> []"
    by (simp add: scenario_refreshing_def scenario_loaded_def scenario_host_simps)
  from refresh_guard[OF quiescent_refreshing] r d
  have "step scenario_host scenario_refreshing ClickRefresh = scenario_refreshing"
    and "step scenario_host scenario_refreshing IntervalTick =
              scenario_refreshing\<lparr>isRefreshing := True, refreshError := None,
                inflight := inflight scenario_refreshing @
                  [\<lparr>caller = HandleRefresh,
                    arguments = (if IntradayCandlestickWidgetData.securityId scenario_data \<noteq> 0
                                 then Some (SecurityId (IntradayCandlestickWidgetData.securityId scenario_data))
                                 else None)\<rparr>]\<rparr>"
    by blast+
  then show ?thesis using quiescent_refreshing r d
    by (simp add: scenario_refreshing_def scenario_host_simps)
qed

text \<open>
  The claim as stated, that at most one request is in flight under every interleaving of
  the manual and the periodic path, fails: after the payload is delivered and Refresh is
  clicked, one request is in flight and \<open>isRefreshing\<close> is set; a tick of the interval
  then starts a second one.
\<close>

theorem two_requests_in_flight:
  "run scenario_host initial [ToolResult True, ClickRefresh] = scenario_refreshing \<and>
   isRefreshing scenario_refreshing \<and>
   length (inflight scenario_refreshing) = 1 \<and>
   inflight (step scenario_host scenario_refreshing IntervalTick) =
     [\<lparr>caller = HandleRefresh, arguments = Some (Symbol ''TEVA'')\<rparr>,
      \<lparr>caller = HandleRefresh, arguments = Some (SecurityId 629014)\<rparr>]"
proof -
  have 1: "run scenario_host initial [ToolResult True, ClickRefresh] = scenario_refreshing"
    using run_loaded step_click by (simp add: run_def)
  have "handle scenario_host scenario_refreshing IntervalTick =
          handleRefresh scenario_refreshing (Some (SecurityId 629014))"
    by (simp add: scenario_refreshing_def scenario_loaded_def scenario_host_simps)
  then have "step scenario_host scenario_refreshing IntervalTick =
          handleRefresh scenario_refreshing (Some (SecurityId 629014))"
    using step_handleRefresh[OF quiescent_refreshing] by (simp only: step_def)
  then have 2: "inflight (step scenario_host scenario_refreshing IntervalTick) =
     [\<lparr>caller = HandleRefresh, arguments = Some (Symbol ''TEVA'')\<rparr>,
      \<lparr>caller = HandleRefresh, arguments = Some (SecurityId 629014)\<rparr>]"
    by (simp add: handleRefresh_def scenario_refreshing_def scenario_loaded_def)
  show ?thesis using 1 2 by (simp add: scenario_refreshing_def)
qed

text \<open>
  Claim C5. When the host delivers a result from which nothing can be extracted, one
  request is issued, with empty arguments. When such a request is rejected or its result
  yields nothing, it leaves the list of pending requests and nothing else changes: no
  further request, no error message. From the initial state the widget is back in the
  initial state, which shows "Waiting for data..." and no error. No event other than a
  result delivered by the host adds a request of this kind.
\<close>

theorem fallback_once:
  fixes h :: "('r, 'p::{linorder,field}, 'v::{plus,zero}) host"
  assumes "quiescent h s" and "hasCallServerTool h"
  shows "(extractIntradayData h r = None \<longrightarrow>
            step h s (ToolResult r) =
              s\<lparr>inflight := inflight s @ [\<lparr>caller = AutoFetch, arguments = None\<rparr>]\<rparr>) \<and>
         (i < length (inflight s) \<and> caller (inflight s ! i) = AutoFetch \<and>
          (out = Rejected \<or> (\<exists>r'. out = Resolved r' \<and> extractIntradayData h r' = None)) \<longrightarrow>
            step h s (Settled i out) =
              s\<lparr>inflight := take i (inflight s) @ drop (Suc i) (inflight s)\<rparr>) \<and>
         (extractIntradayData h r = None \<and>
          (out = Rejected \<or> (\<exists>r'. out = Resolved r' \<and> extractIntradayData h r' = None)) \<longrightarrow>
            step h initial (ToolResult r) =
              initial\<lparr>inflight := [\<lparr>caller = AutoFetch, arguments = None\<rparr>]\<rparr> \<and>
            run h initial [ToolResult r, Settled 0 out] = initial \<and>
            panel h initial = Waiting \<and> refreshError (initial :: ('p, 'v) widget) = None) \<and>
         ((\<forall>r'. e \<noteq> ToolResult r') \<longrightarrow>
            length (filter (\<lambda>q. caller q = AutoFetch) (inflight (step h s e)))
              \<le> length (filter (\<lambda>q. caller q = AutoFetch) (inflight s)))"
proof -
  have A: "step h s' (ToolResult r) = s'\<lparr>inflight := inflight s' @ [\<lparr>caller = AutoFetch, arguments = None\<rparr>]\<rparr>"
    if q: "quiescent h s'" and ex: "extractIntradayData h r = None" for s'
  proof -
    let ?t = "s'\<lparr>inflight := inflight s' @ [\<lparr>caller = AutoFetch, arguments = None\<rparr>]\<rparr>"
    have n: "\<not> needsAutoFetch s'" using q by (simp add: quiescent_iff)
    have "handle h s' (ToolResult r) = s'\<lparr>needsAutoFetch := True\<rparr>"
      using ex by (simp add: ontoolresult_def)
    moreover have "autoFetch_effect h (s'\<lparr>needsAutoFetch := True\<rparr>) = ?t"
      using assms(2) n by (simp add: autoFetch_effect_def)
    moreover have "effects h ?t = ?t" using q by (rule quiescent_frame) simp_all
    then have "syncSymbol_effect (defaultLegend_effect h ?t) = ?t"
      using n by (simp add: effects_def autoFetch_idle)
    ultimately show ?thesis by (simp only: step_def effects_def)
  qed
  have B: "step h s' (Settled j out) = s'\<lparr>inflight := take j (inflight s') @ drop (Suc j) (inflight s')\<rparr>"
    if q: "quiescent h s'" and j: "j < length (inflight s')" "caller (inflight s' ! j) = AutoFetch"
      and bad: "out = Rejected \<or> (\<exists>r'. out = Resolved r' \<and> extractIntradayData h r' = None)" for s' j
  proof -
    let ?t = "s'\<lparr>inflight := take j (inflight s') @ drop (Suc j) (inflight s')\<rparr>"
    have "handle h s' (Settled j out) = ?t"
      using j bad by (auto simp: autoFetch_settled_def Let_def)
    moreover have "effects h ?t = ?t" using q by (rule quiescent_frame) simp_all
    ultimately show ?thesis by (simp only: step_def)
  qed
  have C: "run h initial [ToolResult r, Settled 0 out] = initial"
    if ex: "extractIntradayData h r = None"
      and bad: "out = Rejected \<or> (\<exists>r'. out = Resolved r' \<and> extractIntradayData h r' = None)"
  proof -
    let ?t = "initial\<lparr>inflight := [\<lparr>caller = AutoFetch, arguments = None\<rparr>]\<rparr> :: ('p, 'v) widget"
    have 1: "step h initial (ToolResult r) = ?t"
      using A[OF quiescent_initial ex] by (simp add: initial_def)
    have "quiescent h ?t" using quiescent_step[of h initial "ToolResult r"] by (simp only: 1)
    from B[OF this, of 0] bad have "step h ?t (Settled 0 out) = initial"
      by (simp add: initial_def)
    with 1 show ?thesis by (simp add: run_def)
  qed
  have D: "step h initial (ToolResult r) = initial\<lparr>inflight := [\<lparr>caller = AutoFetch, arguments = None\<rparr>]\<rparr>"
    if ex: "extractIntradayData h r = None"
    using A[OF quiescent_initial ex] by (simp add: initial_def)
  have E: "panel h initial = Waiting" by (simp add: panel_def initial_def)
  have F: "refreshError (initial :: ('p, 'v) widget) = None" by (simp add: initial_def)
  have G: "length (filter (\<lambda>q. caller q = AutoFetch) (inflight (step h s e)))
              \<le> length (filter (\<lambda>q. caller q = AutoFetch) (inflight s))"
    if ne: "\<forall>r'. e \<noteq> ToolResult r'"
  proof -
    have "\<not> needsAutoFetch s" using assms(1) by (simp add: quiescent_iff)
    then have "\<not> needsAutoFetch (handle h s e)" using ne by (rule handle_needsAutoFetch)
    then have "inflight (step h s e) = inflight (handle h s e)"
      by (simp add: step_def effects_inflight)
    then show ?thesis by (simp only: handle_autoFetch_count)
  qed
  show ?thesis using A[OF assms(1)] B[OF assms(1)] C D E F G by blast
qed

theorem fallback_once_witness:
  "quiescent scenario_host (initial :: (rat, rat) widget) \<and> hasCallServerTool scenario_host \<and>
   extractIntradayData scenario_host False = None \<and>
   inflight (step scenario_host (initial :: (rat, rat) widget) (ToolResult False)) =
     [\<lparr>caller = AutoFetch, arguments = None\<rparr>] \<and>
   run scenario_host (initial :: (rat, rat) widget) [ToolResult False, Settled 0 Rejected] = initial \<and>
   run scenario_host (initial :: (rat, rat) widget) [ToolResult False, Settled 0 (Resolved False)] = initial"
proof -
  have c: "hasCallServerTool scenario_host" and e: "extractIntradayData scenario_host False = None"
    by (simp_all add: scenario_host_simps)
  have q: "quiescent scenario_host (initial :: (rat, rat) widget)" by (rule quiescent_initial)
  have o1: "(Rejected :: bool outcome) = Rejected \<or>
            (\<exists>r. Rejected = Resolved r \<and> extractIntradayData scenario_host r = None)"
    by simp
  note o2 = scenario_unparsable
  from fallback_once[OF q c, of False _ Rejected] e o1
  have 1: "step scenario_host (initial :: (rat, rat) widget) (ToolResult False) =
              initial\<lparr>inflight := [\<lparr>caller = AutoFetch, arguments = None\<rparr>]\<rparr>"
    and 2: "run scenario_host (initial :: (rat, rat) widget) [ToolResult False, Settled 0 Rejected] = initial"
    by blast+
  from fallback_once[OF q c, of False _ "Resolved False"] e o2
  have 3: "run scenario_host (initial :: (rat, rat) widget) [ToolResult False, Settled 0 (Resolved False)] = initial"
    by blast
  show ?thesis using q c e 1 2 3 by simp
qed

text \<open>
  Claim C6. When a request started by \<^verbatim>\<open>handleRefresh\<close> (manual or periodic) is
  rejected or its result yields nothing, \<open>refreshError\<close> is set to a message and
  \<open>isRefreshing\<close> is cleared; the data, the candles, the legend index and the selected
  legend are unchanged, and with data present the same panel is rendered. The button, the
  Enter key and the interval start nothing but calls of \<^verbatim>\<open>handleRefresh\<close>. A following
  click on Refresh whose request succeeds replaces the data and leaves no error.
\<close>

theorem refresh_failure:
  assumes "quiescent h s" and "i < length (inflight s)"
    and "caller (inflight s ! i) = HandleRefresh"
    and "out = Rejected \<or> (\<exists>r. out = Resolved r \<and> extractIntradayData h r = None)"
  shows "let s' = step h s (Settled i out) in
           s' = s\<lparr>inflight := take i (inflight s) @ drop (Suc i) (inflight s),
                  refreshError :=
                    Some (case out of Rejected \<Rightarrow> ''Failed to fetch data''
                          | Resolved r \<Rightarrow> ''No data found''),
                  isRefreshing := False\<rparr> \<and>
           data s' = data s \<and>
           candles h s' = candles h s \<and>
           legendMap h s' = legendMap h s \<and>
           legendValues s' = legendValues s \<and>
           (data s \<noteq> None \<longrightarrow> panel h s' = panel h s) \<and>
           (\<forall>e\<in>{ClickRefresh, KeyDownEnter, IntervalTick}.
              handle h s e = s \<or> (\<exists>a. handle h s e = handleRefresh s a)) \<and>
           (\<forall>a. caller (last (inflight (handleRefresh s a))) = HandleRefresh) \<and>
           (\<forall>r fetched.
              extractIntradayData h r = Some fetched \<and> trim (symbolInput s') \<noteq> [] \<longrightarrow>
              (let s'' = run h s' [ClickRefresh, Settled (length (inflight s')) (Resolved r)] in
                 data s'' = Some fetched \<and> refreshError s'' = None \<and> \<not> isRefreshing s'' \<and>
                 inflight s'' = inflight s'))"
proof -
  let ?msg = "case out of Rejected \<Rightarrow> ''Failed to fetch data'' | Resolved r \<Rightarrow> ''No data found''"
  let ?t = "s\<lparr>inflight := take i (inflight s) @ drop (Suc i) (inflight s),
              refreshError := Some ?msg, isRefreshing := False\<rparr>"
  have hd: "handle h s (Settled i out) = ?t"
    using assms(2,3,4) by (auto simp: handleRefresh_settled_def Let_def)
  have ef: "effects h ?t = ?t"
    using assms(1) by (rule quiescent_frame) simp_all
  have st: "step h s (Settled i out) = ?t" by (simp only: step_def hd ef)
  have qt: "quiescent h ?t" using ef by (simp add: quiescent_def)
  have dc: "candles h ?t = candles h s" "candleData h ?t = candleData h s" "legendMap h ?t = legendMap h s"
    by (rule derived_cong; simp)+
  have rec: "data s'' = Some fetched \<and> refreshError s'' = None \<and> \<not> isRefreshing s'' \<and> inflight s'' = inflight ?t"
    if ex: "extractIntradayData h r = Some fetched" and tr: "trim (symbolInput ?t) \<noteq> []"
      and s'': "s'' = run h ?t [ClickRefresh, Settled (length (inflight ?t)) (Resolved r)]"
    for r fetched s''
  proof -
    let ?u = "handleRefresh ?t (Some (Symbol (trim (symbolInput ?t))))"
    have "handle h ?t ClickRefresh = ?u" using tr by (simp add: handleRefreshClick_def)
    then have u: "step h ?t ClickRefresh = ?u"
      using step_handleRefresh[OF qt] by (simp only: step_def)
    let ?w = "handle h ?u (Settled (length (inflight ?t)) (Resolved r))"
    have n: "\<not> needsAutoFetch s" using assms(1) by (simp add: quiescent_iff)
    have w: "data ?w = Some fetched" "refreshError ?w = None" "\<not> isRefreshing ?w"
      "inflight ?w = inflight ?t" "\<not> needsAutoFetch ?w"
      unfolding handle_settle_new[OF ex] using n by simp_all
    have "step h (step h ?t ClickRefresh) (Settled (length (inflight ?t)) (Resolved r)) = effects h ?w"
      unfolding u by (simp only: step_def)
    then have "s'' = effects h ?w" unfolding s'' run_def by simp
    with w show ?thesis by (simp add: effects_frame effects_inflight)
  qed
  have pn: "data s \<noteq> None \<longrightarrow> panel h ?t = panel h s"
    by (simp add: panel_def dc)
  have pa: "\<forall>e\<in>{ClickRefresh, KeyDownEnter, IntervalTick}.
              handle h s e = s \<or> (\<exists>a. handle h s e = handleRefresh s a)"
    using refresh_paths[of _ h s] by blast
  have ca: "\<forall>a. caller (last (inflight (handleRefresh s a))) = HandleRefresh"
    by (simp add: handleRefresh_def)
  show ?thesis
    unfolding Let_def st using rec pn dc pa ca by simp
qed

theorem refresh_failure_witness:
  "quiescent scenario_host scenario_refreshing \<and>
   caller (inflight scenario_refreshing ! 0) = HandleRefresh \<and>
   step scenario_host scenario_refreshing (Settled 0 Rejected) =
     scenario_loaded\<lparr>refreshError := Some ''Failed to fetch data''\<rparr> \<and>
   step scenario_host scenario_refreshing (Settled 0 (Resolved False)) =
     scenario_loaded\<lparr>refreshError := Some ''No data found''\<rparr> \<and>
   refreshError (run scenario_host (scenario_loaded\<lparr>refreshError := Some ''Failed to fetch data''\<rparr>)
     [ClickRefresh, Settled 0 (Resolved True)]) = None"
proof -
  have i: "0 < length (inflight scenario_refreshing)"
    and c: "caller (inflight scenario_refreshing ! 0) = HandleRefresh"
    by (simp_all add: scenario_refreshing_def)
  have o1: "(Rejected :: bool outcome) = Rejected \<or>
            (\<exists>r. Rejected = Resolved r \<and> extractIntradayData scenario_host r = None)"
    by simp
  note o2 = scenario_unparsable
  let ?e = "scenario_loaded\<lparr>refreshError := Some ''Failed to fetch data''\<rparr>"
  note f1 = refresh_failure[OF quiescent_refreshing i c o1, unfolded Let_def]
  note f2 = refresh_failure[OF quiescent_refreshing i c o2, unfolded Let_def]
  have 1: "step scenario_host scenario_refreshing (Settled 0 Rejected) = ?e"
    using f1[THEN conjunct1] by (simp add: scenario_refreshing_def scenario_loaded_def)
  have 2: "step scenario_host scenario_refreshing (Settled 0 (Resolved False)) =
     scenario_loaded\<lparr>refreshError := Some ''No data found''\<rparr>"
    using f2[THEN conjunct1] by (simp add: scenario_refreshing_def scenario_loaded_def)
  have "extractIntradayData scenario_host True = Some scenario_data \<and> trim (symbolInput ?e) \<noteq> []"
    by (simp add: scenario_host_simps scenario_loaded_def trim_TEVA)
  with f1 have "refreshError (run scenario_host ?e [ClickRefresh, Settled (length (inflight ?e)) (Resolved True)]) = None"
    unfolding 1 by blast
  then have 3: "refreshError (run scenario_host ?e [ClickRefresh, Settled 0 (Resolved True)]) = None"
    by (simp add: scenario_loaded_def)
  show ?thesis using quiescent_refreshing c 1 2 3 by simp
qed

text \<open>
  Claim C8. A click on a timeframe button (enabled while no refresh is running) selects
  the timeframe; the candles are \<^verbatim>\<open>aggregateCandles\<close> of the same items with the new
  timeframe, the legend index is built from these candles, the selected legend is the
  summary of the last of them (none when there is no candle), the data are unchanged and
  no request is started.
\<close>

theorem timeframe_change:
  assumes "quiescent h s" and "\<not> isRefreshing s"
  shows "let cs = (case data s of None \<Rightarrow> []
                   | Some d \<Rightarrow> aggregateCandles (getTime h) (items d) tf);
             s' = step h s (ClickTimeframe tf)
         in s' = s\<lparr>selectedTimeframe := tf,
                     legendValues := (if cs = [] then None else Some (legend_of (last cs)))\<rparr> \<and>
            candles h s' = cs \<and>
            legendMap h s' = foldl (\<lambda>m c. m(time c \<mapsto> legend_of c)) Map.empty cs \<and>
            data s' = data s \<and>
            inflight s' = inflight s"
proof -
  let ?s1 = "s\<lparr>selectedTimeframe := tf, legendValues := None\<rparr>"
  let ?cs = "case data s of None \<Rightarrow> [] | Some d \<Rightarrow> aggregateCandles (getTime h) (items d) tf"
  let ?lv = "if ?cs = [] then None else Some (legend_of (last ?cs))"
  have q: "\<not> needsAutoFetch s" "\<not> (\<exists>d. data s = Some d \<and> symbol d \<noteq> [] \<and> symbolInput s = [])"
    using assms(1) by (simp_all add: quiescent_iff)
  have h: "handle h s (ClickTimeframe tf) = ?s1" using assms(2) by simp
  have a: "autoFetch_effect h ?s1 = ?s1" using q(1) by (simp add: autoFetch_idle)
  have d: "default_legend h ?s1 = ?lv"
    by (simp only: default_legend_def candles_tf)
  have b: "defaultLegend_effect h ?s1 = s\<lparr>selectedTimeframe := tf, legendValues := ?lv\<rparr>"
    unfolding d[symmetric] by (simp add: defaultLegend_eq)
  have c: "syncSymbol_effect (s\<lparr>selectedTimeframe := tf, legendValues := ?lv\<rparr>)
             = s\<lparr>selectedTimeframe := tf, legendValues := ?lv\<rparr>"
    using q(2) by (simp add: sync_idle_iff)
  have st: "step h s (ClickTimeframe tf) = s\<lparr>selectedTimeframe := tf, legendValues := ?lv\<rparr>"
    by (simp only: step_def h effects_def a b c)
  have cs: "candles h (s\<lparr>selectedTimeframe := tf, legendValues := ?lv\<rparr>) = ?cs"
    by (rule candles_tf)
  have lm: "legendMap h (s\<lparr>selectedTimeframe := tf, legendValues := ?lv\<rparr>) =
              foldl (\<lambda>m c. m(time c \<mapsto> legend_of c)) Map.empty ?cs"
    by (simp add: legendMap_def split: option.splits)
  show ?thesis
    unfolding Let_def st cs lm by simp
qed

theorem timeframe_change_witness:
  "quiescent scenario_host scenario_loaded \<and> \<not> isRefreshing scenario_loaded \<and>
   step scenario_host scenario_loaded (ClickTimeframe TF_1m) =
     scenario_loaded\<lparr>selectedTimeframe := TF_1m\<rparr> \<and>
   map time (candles scenario_host (step scenario_host scenario_loaded (ClickTimeframe TF_1m))) =
     [1772357400, 1772357460, 1772357700]"
proof -
  have r: "\<not> isRefreshing scenario_loaded" by (simp add: scenario_loaded_def)
  have d: "data scenario_loaded = Some scenario_data" by (simp add: scenario_loaded_def)
  let ?s' = "step scenario_host scenario_loaded (ClickTimeframe TF_1m)"
  note t = timeframe_change[OF quiescent_loaded r, of TF_1m, unfolded Let_def d option.case
      scenario_host_simps scenario_1m]
  have 1: "?s' = scenario_loaded\<lparr>selectedTimeframe := TF_1m\<rparr>"
    using t[THEN conjunct1] by (simp add: legend_of_def scenario_loaded_def)
  have 2: "map time (candles scenario_host ?s') = [1772357400, 1772357460, 1772357700]"
    using t[THEN conjunct2, THEN conjunct1] by simp
  show ?thesis using quiescent_loaded r 1 2 by simp
qed

end
